theory Spec2Isabelle
  imports Complex_Main
begin

section \<open>Data model\<close>

text \<open>
  The module \<^verbatim>\<open>terratools/lookup_tables.py\<close> holds the class
  \<^verbatim>\<open>SeismicLookupTable\<close> and two free functions. Floating-point numbers are
  modelled by the reals, so every statement below is about exact arithmetic; rounding
  is outside the model. A numpy 1-D array is a list. Python exceptions are values of
  the type \<open>error\<close>; text printed to the console is a list of \<open>message\<close>s.
\<close>

datatype error = ValueError | IndexError | KeyError | AttributeError | ZeroDivisionError

text \<open>
  The four console lines of \<^verbatim>\<open>get_vals\<close> (lines 96, 100, 116, 120). Each
  carries the offending value; the formatting of the number is not modelled.
\<close>

datatype message =
    PressureBelow real
  | PressureAbove real
  | TemperatureBelow real
  | TemperatureAbove real

text \<open>
  One line of the sample table: the ten columns
  \<^verbatim>\<open>[pressure, temperature, vp, vs, vp_ani, vs_ani, vphi, density, qs, t_sol]\<close>.
\<close>

record row =
  rP :: real
  rT :: real
  rVp :: real
  rVs :: real
  rVp_an :: real
  rVs_an :: real
  rVphi :: real
  rDens :: real
  rQs :: real
  rT_sol :: real

text \<open>\<^verbatim>\<open>table[i, c]\<close> for a row \<open>r = table[i]\<close> and a column \<open>c\<close> in 0..9.\<close>

definition cell :: "row \<Rightarrow> nat \<Rightarrow> real" where
  "cell r c = [rP r, rT r, rVp r, rVs r, rVp_an r, rVs_an r, rVphi r, rDens r, rQs r, rT_sol r] ! c"

text \<open>\<^verbatim>\<open>table[:, c]\<close>\<close>

definition column :: "row list \<Rightarrow> nat \<Rightarrow> real list" where
  "column tab c = map (\<lambda>r. cell r c) tab"

definition bindE :: "error + 'a \<Rightarrow> ('a \<Rightarrow> error + 'b) \<Rightarrow> error + 'b" where
  "bindE m f = (case m of Inl e \<Rightarrow> Inl e | Inr x \<Rightarrow> f x)"

subsection \<open>The numpy operations the module uses\<close>

text \<open>\<^verbatim>\<open>np.unique\<close>: the sorted distinct values.\<close>

definition np_unique :: "real list \<Rightarrow> real list" where
  "np_unique xs = sort (remdups xs)"

text \<open>\<^verbatim>\<open>np.min\<close>, \<^verbatim>\<open>np.max\<close>: a ValueError on an empty array.\<close>

definition np_min :: "real list \<Rightarrow> error + real" where
  "np_min xs = (if xs = [] then Inl ValueError else Inr (Min (set xs)))"

definition np_max :: "real list \<Rightarrow> error + real" where
  "np_max xs = (if xs = [] then Inl ValueError else Inr (Max (set xs)))"

text \<open>\<^verbatim>\<open>np.where(cond)[0]\<close>: the increasing indices where the condition holds.\<close>

definition np_where :: "('a \<Rightarrow> bool) \<Rightarrow> 'a list \<Rightarrow> nat list" where
  "np_where Q xs = filter (\<lambda>i. Q (xs ! i)) [0..<length xs]"

text \<open>\<^verbatim>\<open>np.intersect1d\<close>: the sorted distinct common elements.\<close>

definition np_intersect1d :: "nat list \<Rightarrow> nat list \<Rightarrow> nat list" where
  "np_intersect1d xs ys = sort (remdups (filter (\<lambda>x. x \<in> set ys) xs))"

text \<open>\<^verbatim>\<open>np.zeros((m, n))\<close>, a list of \<open>m\<close> lines of \<open>n\<close> zeros.\<close>

definition np_zeros :: "nat \<Rightarrow> nat \<Rightarrow> real list list" where
  "np_zeros m n = replicate m (replicate n 0)"

text \<open>
  Indexing with a Python integer: a negative index counts from the end, and an index
  outside \<open>[-n, n)\<close> raises IndexError.
\<close>

definition py_index :: "'a list \<Rightarrow> int \<Rightarrow> error + 'a" where
  "py_index xs i =
     (let n = int (length xs) in
      if 0 \<le> i \<and> i < n then Inr (xs ! nat i)
      else if - n \<le> i \<and> i < 0 then Inr (xs ! nat (n + i))
      else Inl IndexError)"

text \<open>The slice \<^verbatim>\<open>xs[a:b]\<close> for \<open>0 \<le> a \<le> b\<close>: it is cut at the end of the array.\<close>

definition py_slice :: "'a list \<Rightarrow> nat \<Rightarrow> nat \<Rightarrow> 'a list" where
  "py_slice xs a b = take (b - a) (drop a xs)"

text \<open>
  An elementwise binary operation on two 1-D arrays with numpy's broadcasting: equal
  lengths, or one of the two of length 1; anything else is a ValueError.
\<close>

definition np_binop :: "(real \<Rightarrow> real \<Rightarrow> real) \<Rightarrow> real list \<Rightarrow> real list \<Rightarrow> error + real list" where
  "np_binop f xs ys =
     (if length xs = length ys then Inr (map2 f xs ys)
      else if length xs = 1 then Inr (map (f (hd xs)) ys)
      else if length ys = 1 then Inr (map (\<lambda>x. f x (hd ys)) xs)
      else Inl ValueError)"

text \<open>
  The assignment \<^verbatim>\<open>A[:, i] = vals\<close> into a 2-D array \<open>A\<close> (a list of lines):
  \<open>vals\<close> has one entry per line of \<open>A\<close>, or it has one entry, which numpy
  broadcasts over the column; any other length is a ValueError.
\<close>

definition assign_column :: "real list list \<Rightarrow> nat \<Rightarrow> real list \<Rightarrow> error + real list list" where
  "assign_column A i vals =
     (if length vals = length A then Inr (map2 (\<lambda>line v. line[i := v]) A vals)
      else if length vals = 1 then Inr (map (\<lambda>line. line[i := hd vals]) A)
      else Inl ValueError)"

section \<open>The class SeismicLookupTable\<close>

text \<open>The eight local arrays of \<^verbatim>\<open>__init__\<close>, each of shape (len(temp), len(pres)).\<close>

record grids =
  gVp :: "real list list"
  gVs :: "real list list"
  gVp_an :: "real list list"
  gVs_an :: "real list list"
  gVphi :: "real list list"
  gDens :: "real list list"
  gQs :: "real list list"
  gT_sol :: "real list list"

text \<open>
  \<^verbatim>\<open>scipy.interpolate.interp2d\<close> is not code of this module. It is an argument
  of the model: from the two axes and the 2-D array of a field it either raises or gives
  the function that a call \<^verbatim>\<open>grid(p, t)\<close> evaluates.
\<close>

type_synonym interp2d =
  "real list \<Rightarrow> real list \<Rightarrow> real list list \<Rightarrow> error + (real \<Rightarrow> real \<Rightarrow> real)"

text \<open>
  The attributes of the object. The dictionary \<^verbatim>\<open>self.fields\<close> (here \<open>fields_dict\<close>)
  is an association list from the field name to (column index, 2-D array, unit).
\<close>

record SeismicLookupTable =
  table :: "row list"
  P_col :: "real list"
  T_col :: "real list"
  pres :: "real list"
  temp :: "real list"
  n_uniq_p :: nat
  n_uniq_t :: nat
  t_max :: real
  t_min :: real
  p_max :: real
  p_min :: real
  pstep :: nat
  fields_dict :: "(string \<times> (nat \<times> real list list \<times> string)) list"
  vp_interp :: "real \<Rightarrow> real \<Rightarrow> real"
  vs_interp :: "real \<Rightarrow> real \<Rightarrow> real"
  vp_an_interp :: "real \<Rightarrow> real \<Rightarrow> real"
  vs_an_interp :: "real \<Rightarrow> real \<Rightarrow> real"
  vphi_interp :: "real \<Rightarrow> real \<Rightarrow> real"
  density_interp :: "real \<Rightarrow> real \<Rightarrow> real"
  qs_interp :: "real \<Rightarrow> real \<Rightarrow> real"
  t_sol_interp :: "real \<Rightarrow> real \<Rightarrow> real"

subsection \<open>Construction\<close>

text \<open>
  One turn of the loop of lines 46 to 54: the pressure block \<open>i\<close> is the slice
  \<^verbatim>\<open>table[i*pstep : pstep + i*pstep]\<close>, and its columns 2 to 9 go to column \<open>i\<close> of
  the eight arrays.
\<close>

definition fill_step :: "row list \<Rightarrow> nat \<Rightarrow> nat \<Rightarrow> grids \<Rightarrow> error + grids" where
  "fill_step tab step i g =
     (let block = py_slice tab (0 + i * step) (step + i * step) in
      bindE (assign_column (gVp g) i (column block 2)) (\<lambda>a2.
      bindE (assign_column (gVs g) i (column block 3)) (\<lambda>a3.
      bindE (assign_column (gVp_an g) i (column block 4)) (\<lambda>a4.
      bindE (assign_column (gVs_an g) i (column block 5)) (\<lambda>a5.
      bindE (assign_column (gVphi g) i (column block 6)) (\<lambda>a6.
      bindE (assign_column (gDens g) i (column block 7)) (\<lambda>a7.
      bindE (assign_column (gQs g) i (column block 8)) (\<lambda>a8.
      bindE (assign_column (gT_sol g) i (column block 9)) (\<lambda>a9.
      Inr \<lparr>gVp = a2, gVs = a3, gVp_an = a4, gVs_an = a5,
           gVphi = a6, gDens = a7, gQs = a8, gT_sol = a9\<rparr>)))))))))"

fun fill_loop :: "row list \<Rightarrow> nat \<Rightarrow> nat list \<Rightarrow> grids \<Rightarrow> error + grids" where
  "fill_loop tab step [] g = Inr g"
| "fill_loop tab step (i # rest) g = bindE (fill_step tab step i g) (fill_loop tab step rest)"

text \<open>
  \<^verbatim>\<open>__init__\<close> from the 2-D array that \<^verbatim>\<open>np.genfromtxt\<close> returned (reading
  the file is not modelled), with SciPy's \<^verbatim>\<open>interp2d\<close> as an argument.
\<close>

definition init :: "interp2d \<Rightarrow> row list \<Rightarrow> error + SeismicLookupTable" where
  "init interp2d tab =
     (let Pc = column tab 0;
          Tc = column tab 1;
          ps = np_unique Pc;
          ts = np_unique Tc
      in bindE (np_max ts) (\<lambda>tmax.
         bindE (np_min ts) (\<lambda>tmin.
         bindE (np_max ps) (\<lambda>pmax.
         bindE (np_min ps) (\<lambda>pmin.
         let step = length ts;
             z = np_zeros (length ts) (length ps)
         in bindE (fill_loop tab step [0..<length ps]
                     \<lparr>gVp = z, gVs = z, gVp_an = z, gVs_an = z,
                      gVphi = z, gDens = z, gQs = z, gT_sol = z\<rparr>) (\<lambda>g.
            bindE (interp2d ps ts (gVp g)) (\<lambda>i2.
            bindE (interp2d ps ts (gVs g)) (\<lambda>i3.
            bindE (interp2d ps ts (gVp_an g)) (\<lambda>i4.
            bindE (interp2d ps ts (gVs_an g)) (\<lambda>i5.
            bindE (interp2d ps ts (gVphi g)) (\<lambda>i6.
            bindE (interp2d ps ts (gDens g)) (\<lambda>i7.
            bindE (interp2d ps ts (gQs g)) (\<lambda>i8.
            bindE (interp2d ps ts (gT_sol g)) (\<lambda>i9.
            Inr \<lparr>table = tab, P_col = Pc, T_col = Tc, pres = ps, temp = ts,
                 n_uniq_p = length ps, n_uniq_t = length ts,
                 t_max = tmax, t_min = tmin, p_max = pmax, p_min = pmin,
                 pstep = step,
                 fields_dict = [(''vp'', (2, gVp g, ''km/s'')), (''vs'', (3, gVs g, ''km/s'')),
                           (''vp_ani'', (4, gVp_an g, ''km/s'')),
                           (''vs_ani'', (5, gVs_an g, ''km/s'')),
                           (''vphi'', (6, gVphi g, ''km/s'')),
                           (''density'', (7, gDens g, ''$kg/m^3$'')),
                           (''qs'', (8, gQs g, ''Hz'')), (''t_sol'', (9, gT_sol g, ''K''))],
                 vp_interp = i2, vs_interp = i3, vp_an_interp = i4, vs_an_interp = i5,
                 vphi_interp = i6, density_interp = i7, qs_interp = i8,
                 t_sol_interp = i9\<rparr>))))))))))))))"

subsection \<open>The point query get_vals\<close>

text \<open>
  Lines 95 to 109 (pressure) and 115 to 129 (temperature) are the same code on column
  0 with the stride \<^verbatim>\<open>self.pstep\<close> and on column 1 with the stride 1, and with
  their own console lines. \<open>find_bounds\<close> is that code with the column, the stride and
  the two console lines as arguments; it returns what was printed and the pair
  (lower bound, upper bound).
\<close>

definition find_bounds ::
  "real list \<Rightarrow> nat \<Rightarrow> (real \<Rightarrow> message) \<Rightarrow> (real \<Rightarrow> message) \<Rightarrow> real
     \<Rightarrow> message list \<times> (error + real \<times> real)" where
  "find_bounds col stride msg_lo msg_hi val =
     (case np_min col of Inl e \<Rightarrow> ([], Inl e) | Inr mn \<Rightarrow>
      if val < mn then ([msg_lo val], Inr (mn, mn))
      else case np_max col of Inl e \<Rightarrow> ([], Inl e) | Inr mx \<Rightarrow>
      if val > mx then ([msg_hi val], Inr (mx, mx))
      else
        (let dist = map (\<lambda>x. \<bar>x - val\<bar>) col in
         case np_min dist of Inl e \<Rightarrow> ([], Inl e) | Inr dmin \<Rightarrow>
         (case np_where (\<lambda>d. d = dmin) dist of
            [] \<Rightarrow> ([], Inl IndexError)
          | ix0 # _ \<Rightarrow>
             (case py_index col (int ix0) of Inl e \<Rightarrow> ([], Inl e) | Inr here \<Rightarrow>
              if here - val < 0 then
                (case py_index col (int ix0 + int stride) of
                   Inl e \<Rightarrow> ([], Inl e)
                 | Inr nxt \<Rightarrow> ([], Inr (here, nxt)))
              else
                (case py_index col (int ix0 - int stride) of
                   Inl e \<Rightarrow> ([], Inl e)
                 | Inr prv \<Rightarrow> ([], Inr (prv, here)))))))"

definition pressure_bounds :: "SeismicLookupTable \<Rightarrow> real \<Rightarrow> message list \<times> (error + real \<times> real)" where
  "pressure_bounds self pval =
     find_bounds (column (table self) 0) (pstep self) PressureBelow PressureAbove pval"

definition temperature_bounds :: "SeismicLookupTable \<Rightarrow> real \<Rightarrow> message list \<times> (error + real \<times> real)" where
  "temperature_bounds self tval =
     find_bounds (column (table self) 1) 1 TemperatureBelow TemperatureAbove tval"

text \<open>
  Lines 133 to 137: the indices of the lines whose pressure is \<open>p\<close> and whose
  temperature is \<open>t\<close>.
\<close>

definition corner :: "row list \<Rightarrow> real \<Rightarrow> real \<Rightarrow> nat list" where
  "corner tab p t =
     np_intersect1d (np_where (\<lambda>x. x = p) (column tab 0)) (np_where (\<lambda>x. x = t) (column tab 1))"

text \<open>\<^verbatim>\<open>table[idx, c]\<close> for an array \<open>idx\<close> of valid indices.\<close>

definition take_cells :: "row list \<Rightarrow> nat list \<Rightarrow> nat \<Rightarrow> real list" where
  "take_cells tab idx c = map (\<lambda>i. cell (tab ! i) c) idx"

text \<open>
  Modelled from the spec: \<^verbatim>\<open>norm_vals\<close> of \<^verbatim>\<open>terratools/utils.py\<close>, which is
  not among the sources. The specification gives
  \<open>frac = (value - low) / (high - low)\<close> when \<open>high \<noteq> low\<close>, and 0 when
  \<open>high = low\<close>. The arguments are in the order of the call,
  \<^verbatim>\<open>norm_vals(value, high, low)\<close>.
\<close>

definition norm_vals :: "real \<Rightarrow> real \<Rightarrow> real \<Rightarrow> real" where
  "norm_vals val high low = (if high = low then 0 else (val - low) / (high - low))"

text \<open>
  Modelled from the spec: \<^verbatim>\<open>int_linear\<close> of \<^verbatim>\<open>terratools/utils.py\<close>, which
  is not among the sources. The specification gives
  \<open>a = v_ll + (v_lh - v_ll) * t_frac\<close>, \<open>b = v_hl + (v_hh - v_hl) * t_frac\<close>,
  \<open>value = a + (b - a) * p_frac\<close>. \<^verbatim>\<open>get_vals\<close> calls it on the 1-D arrays
  \<^verbatim>\<open>table[idx, c]\<close>, so the arithmetic is numpy's, elementwise with broadcasting.
\<close>

definition int_linear ::
  "real list \<Rightarrow> real list \<Rightarrow> real list \<Rightarrow> real list \<Rightarrow> real \<Rightarrow> real \<Rightarrow> error + real list" where
  "int_linear v_ll v_lh v_hl v_hh t_frac p_frac =
     bindE (np_binop (-) v_lh v_ll) (\<lambda>d1.
     bindE (np_binop (+) v_ll (map (\<lambda>x. x * t_frac) d1)) (\<lambda>a.
     bindE (np_binop (-) v_hh v_hl) (\<lambda>d2.
     bindE (np_binop (+) v_hl (map (\<lambda>x. x * t_frac) d2)) (\<lambda>b.
     bindE (np_binop (-) b a) (\<lambda>d3.
     np_binop (+) a (map (\<lambda>x. x * p_frac) d3))))))"

text \<open>
  \<^verbatim>\<open>get_vals\<close> returns what it printed and either the exception or the tuple
  \<^verbatim>\<open>(Vp, Vs, Vp_an, Vs_an, Vphi, Dens)\<close> of 1-D arrays.
\<close>

type_synonym vals = "real list \<times> real list \<times> real list \<times> real list \<times> real list \<times> real list"

definition interp_cells ::
  "row list \<Rightarrow> nat list \<Rightarrow> nat list \<Rightarrow> nat list \<Rightarrow> nat list \<Rightarrow> real \<Rightarrow> real \<Rightarrow> nat
     \<Rightarrow> error + real list" where
  "interp_cells tab ipltl ipltu iputl iputu tnorm pnorm c =
     int_linear (take_cells tab ipltl c) (take_cells tab ipltu c)
                (take_cells tab iputl c) (take_cells tab iputu c) tnorm pnorm"

definition get_vals :: "SeismicLookupTable \<Rightarrow> real \<Rightarrow> real \<Rightarrow> message list \<times> (error + vals)" where
  "get_vals self pval tval =
     (case pressure_bounds self pval of
        (m1, Inl e) \<Rightarrow> (m1, Inl e)
      | (m1, Inr (p_l, p_u)) \<Rightarrow>
         (case temperature_bounds self tval of
            (m2, Inl e) \<Rightarrow> (m1 @ m2, Inl e)
          | (m2, Inr (t_l, t_u)) \<Rightarrow>
             (let tab = table self;
                  ipltl = corner tab p_l t_l;
                  ipltu = corner tab p_l t_u;
                  iputl = corner tab p_u t_l;
                  iputu = corner tab p_u t_u;
                  tnorm = norm_vals tval t_u t_l;
                  pnorm = norm_vals pval p_u p_l;
                  field = interp_cells tab ipltl ipltu iputl iputu tnorm pnorm
              in (m1 @ m2,
                  bindE (field 2) (\<lambda>Vp.
                  bindE (field 3) (\<lambda>Vs.
                  bindE (field 4) (\<lambda>Vp_an.
                  bindE (field 5) (\<lambda>Vs_an.
                  bindE (field 6) (\<lambda>Vphi.
                  bindE (field 7) (\<lambda>Dens.
                  Inr (Vp, Vs, Vp_an, Vs_an, Vphi, Dens)))))))))))"


subsection \<open>The paired query interp_points\<close>

text \<open>
  \<^verbatim>\<open>str.lower\<close> on ASCII text: the capital letters go to the small ones, every
  other character stays.
\<close>

definition lower_char :: "char \<Rightarrow> char" where
  "lower_char c =
     (case map_of (zip ''ABCDEFGHIJKLMNOPQRSTUVWXYZ'' ''abcdefghijklmnopqrstuvwxyz'') c of
        None \<Rightarrow> c
      | Some d \<Rightarrow> d)"

definition lower :: "string \<Rightarrow> string" where
  "lower s = map lower_char s"

text \<open>The dictionary access \<^verbatim>\<open>self.fields[key]\<close>: a missing key is a KeyError.\<close>

definition fields_getitem :: "SeismicLookupTable \<Rightarrow> string \<Rightarrow> error + nat \<times> real list list \<times> string" where
  "fields_getitem self key =
     (case map_of (fields_dict self) key of None \<Rightarrow> Inl KeyError | Some entry \<Rightarrow> Inr entry)"

text \<open>
  An argument \<^verbatim>\<open>press\<close> or \<^verbatim>\<open>temps\<close>: a Python int, a Python float, or a
  sequence of numbers (a list or a 1-D array). Lines 190 and 191 turn an int or a float
  into a list of length one and leave a sequence as it is.
\<close>

datatype pyarg = PyInt int | PyFloat real | PySeq "real list"

definition promote :: "pyarg \<Rightarrow> real list" where
  "promote v = (case v of PyInt i \<Rightarrow> [of_int i] | PyFloat x \<Rightarrow> [x] | PySeq xs \<Rightarrow> xs)"

text \<open>\<^verbatim>\<open>xs[i]\<close> for \<open>i \<ge> 0\<close>: IndexError beyond the end.\<close>

definition py_getitem :: "real list \<Rightarrow> nat \<Rightarrow> error + real" where
  "py_getitem xs i = (if i < length xs then Inr (xs ! i) else Inl IndexError)"

text \<open>The loop of lines 197 and 198 over the indices \<^verbatim>\<open>range(len(press))\<close>.\<close>

fun points_loop ::
  "(real \<Rightarrow> real \<Rightarrow> real) \<Rightarrow> real list \<Rightarrow> real list \<Rightarrow> nat list \<Rightarrow> real list \<Rightarrow> error + real list" where
  "points_loop grid press temps [] out = Inr out"
| "points_loop grid press temps (i # rest) out =
     bindE (py_getitem press i) (\<lambda>p.
     bindE (py_getitem temps i) (\<lambda>t.
     points_loop grid press temps rest (out[i := grid p t])))"

definition interp_points ::
  "interp2d \<Rightarrow> SeismicLookupTable \<Rightarrow> pyarg \<Rightarrow> pyarg \<Rightarrow> string \<Rightarrow> error + real list" where
  "interp_points interp2d self press temps field =
     (let press = promote press;
          temps = promote temps
      in bindE (fields_getitem self (lower field)) (\<lambda>entry.
         bindE (interp2d (pres self) (temp self) (fst (snd entry))) (\<lambda>grid.
         let out = replicate (length press) 0
         in points_loop grid press temps [0..<length press] out)))"

section \<open>The free functions\<close>

text \<open>
  \<^verbatim>\<open>harmonic_mean_comp\<close> on numbers (numpy applies the same arithmetic to each
  entry of arrays). A division by zero raises ZeroDivisionError on Python floats; on numpy
  values it raises nothing and gives inf or nan. The reals have no such values, and the
  model returns ZeroDivisionError in both cases.
\<close>

definition harmonic_mean_comp :: "real \<Rightarrow> real \<Rightarrow> real \<Rightarrow> real \<Rightarrow> real \<Rightarrow> real \<Rightarrow> error + real" where
  "harmonic_mean_comp bas lhz hzb bas_fr lhz_fr hzb_fr =
     (if bas = 0 then Inl ZeroDivisionError else
      let m1 = (1 / bas) * bas_fr in
      if lhz = 0 then Inl ZeroDivisionError else
      let m2 = (1 / lhz) * lhz_fr in
      if hzb = 0 then Inl ZeroDivisionError else
      let m3 = (1 / hzb) * hzb_fr in
      if m1 + m2 + m3 = 0 then Inl ZeroDivisionError else Inr (1 / (m1 + m2 + m3)))"

text \<open>
  The values \<^verbatim>\<open>vals1\<close>, \<^verbatim>\<open>vals2\<close> of \<^verbatim>\<open>linear_interp_1d\<close>: a Python
  number, a Python list, a numpy scalar, or a numpy array (given by its entries in
  row-major order). Only the numpy objects have the method \<^verbatim>\<open>flatten\<close>.
\<close>

datatype pydata = PyScalar real | PyList "real list" | NpScalar real | NdArray "real list"

definition flatten :: "pydata \<Rightarrow> error + real list" where
  "flatten v = (case v of NdArray xs \<Rightarrow> Inr xs | NpScalar x \<Rightarrow> Inr [x] | _ \<Rightarrow> Inl AttributeError)"

text \<open>The new composition value: one number, or an array of them.\<close>

datatype cquery = CScalar real | CArray "real list"

datatype ndresult = Arr1 "real list" | Arr2 "real list list"

text \<open>
  \<^verbatim>\<open>scipy.interpolate.interp1d\<close> is not code of this module. On the two points
  \<^verbatim>\<open>[c1, c2]\<close>, of kind linear and with \<^verbatim>\<open>fill_value='extrapolate'\<close>, SciPy
  sorts the points by \<open>x\<close> and evaluates
  \<open>slope = (y_hi - y_lo) / (x_hi - x_lo)\<close>, \<open>y_new = slope * (x_new - x_lo) + y_lo\<close>
  for every \<open>x_new\<close>, inside the two points or not.
\<close>

definition interp1d_at :: "real \<Rightarrow> real \<Rightarrow> real list \<Rightarrow> real list \<Rightarrow> real \<Rightarrow> real list" where
  "interp1d_at c1 c2 y1 y2 x_new =
     (let (x_lo, y_lo, x_hi, y_hi) = (if c1 \<le> c2 then (c1, y1, c2, y2) else (c2, y2, c1, y1))
      in map2 (\<lambda>lo hi. (hi - lo) / (x_hi - x_lo) * (x_new - x_lo) + lo) y_lo y_hi)"

text \<open>
  \<^verbatim>\<open>linear_interp_1d\<close>. Two flattened arrays of different lengths do not form a
  2-D array (ValueError). With \<open>c1 = c2\<close> the slope is a division by zero, which
  numpy answers with inf or nan and no exception; the reals have no such values, and the
  model returns ZeroDivisionError there.
\<close>

definition linear_interp_1d :: "pydata \<Rightarrow> pydata \<Rightarrow> real \<Rightarrow> real \<Rightarrow> cquery \<Rightarrow> error + ndresult" where
  "linear_interp_1d vals1 vals2 c1 c2 cnew =
     bindE (flatten vals1) (\<lambda>y1.
     bindE (flatten vals2) (\<lambda>y2.
       if length y1 \<noteq> length y2 then Inl ValueError
       else if c1 = c2 then Inl ZeroDivisionError
       else (case cnew of
               CScalar x \<Rightarrow> Inr (Arr1 (interp1d_at c1 c2 y1 y2 x))
             | CArray xs \<Rightarrow> Inr (Arr2 (map (interp1d_at c1 c2 y1 y2) xs)))))"

section \<open>Notions of the specification\<close>

text \<open>
  A valid table (sections 3 and 6 of the specification): the lines are the complete
  rectangular grid of the unique pressures and the unique temperatures, every node once,
  grouped in blocks of one pressure each, with increasing temperature inside each block.
  The blocks may come in any order of pressure. \<open>remdups\<close> keeps one copy of each
  value in the order of the list, so on a column made of blocks it gives the pressures
  in the order of their blocks.
\<close>

definition nodes :: "row list \<Rightarrow> (real \<times> real) list" where
  "nodes tab = map (\<lambda>r. (rP r, rT r)) tab"

definition valid_table :: "row list \<Rightarrow> bool" where
  "valid_table tab \<longleftrightarrow>
     tab \<noteq> [] \<and> nodes tab = List.product (remdups (column tab 0)) (np_unique (column tab 1))"

text \<open>
  A valid table whose blocks are in increasing order of pressure. The specification does
  not ask for this order; the index arithmetic of \<^verbatim>\<open>get_vals\<close> on the pressure
  column relies on it.
\<close>

definition ascending_table :: "row list \<Rightarrow> bool" where
  "ascending_table tab \<longleftrightarrow> valid_table tab \<and> sorted (remdups (column tab 0))"

text \<open>
  The bound-finding rule of section 4.1 in the words of the specification: \<open>k\<close> is the
  index of an axis entry nearest to the value; an entry below the value is the low
  bound and the next entry the high bound, an entry at or above the value is the high
  bound and the previous entry the low bound.
\<close>

definition nearest :: "real list \<Rightarrow> real \<Rightarrow> nat \<Rightarrow> bool" where
  "nearest xs v k \<longleftrightarrow> k < length xs \<and> (\<forall>j<length xs. \<bar>xs ! k - v\<bar> \<le> \<bar>xs ! j - v\<bar>)"

definition spec_bounds :: "real list \<Rightarrow> real \<Rightarrow> nat \<Rightarrow> real \<times> real" where
  "spec_bounds xs v k = (if xs ! k < v then (xs ! k, xs ! (k + 1)) else (xs ! (k - 1), xs ! k))"

text \<open>The harmonic mix of section 4.4 in the words of the specification.\<close>

definition harmonic_mix :: "real list \<Rightarrow> real list \<Rightarrow> real" where
  "harmonic_mix vs fs = 1 / sum_list (map2 (\<lambda>v f. f / v) vs fs)"

text \<open>The field names of section 4.3.\<close>

definition registry :: "string list" where
  "registry = [''vp'', ''vs'', ''vp_ani'', ''vs_ani'', ''vphi'', ''density'', ''qs'', ''t_sol'']"

text \<open>
  The table of the scenarios of section 8: pressures 1, 2, 3 and temperatures 100, 200,
  300, with \<open>vp\<close> 4.0, 4.2, 4.4, 4.6 at the four nodes of the first cell. The other
  entries are free in the specification; they are fixed here to have a concrete table.
\<close>

definition sample_row :: "real \<Rightarrow> real \<Rightarrow> real \<Rightarrow> row" where
  "sample_row p t v = \<lparr>rP = p, rT = t, rVp = v, rVs = 2, rVp_an = 5, rVs_an = 3, rVphi = 4,
                       rDens = 1000 * v, rQs = 100, rT_sol = 2000\<rparr>"

definition scenario :: "row list" where
  "scenario = [sample_row 1 100 4.0, sample_row 1 200 4.2, sample_row 1 300 4.3,
               sample_row 2 100 4.4, sample_row 2 200 4.6, sample_row 2 300 4.7,
               sample_row 3 100 5.0, sample_row 3 200 5.2, sample_row 3 300 5.4]"

text \<open>
  The scenario table without its last two lines: seven lines, the third pressure block
  holding one line only.
\<close>

definition truncated :: "row list" where
  "truncated = take 7 scenario"

text \<open>
  The lines of the scenario table with the three pressure blocks in the order 3, 2, 1:
  the same axes, the same nodes and the same values, each block in increasing temperature.
\<close>

definition descending :: "row list" where
  "descending = [sample_row 3 100 5.0, sample_row 3 200 5.2, sample_row 3 300 5.4,
                 sample_row 2 100 4.4, sample_row 2 200 4.6, sample_row 2 300 4.7,
                 sample_row 1 100 4.0, sample_row 1 200 4.2, sample_row 1 300 4.3]"

text \<open>
  A stand-in for SciPy in the concrete examples: it accepts every grid, and its
  interpolant is the sum of the two coordinates (not SciPy's values).
\<close>

definition stub_interp2d :: interp2d where
  "stub_interp2d xs ys z = Inr (\<lambda>p t. p + t)"

section \<open>Notions of the proofs\<close>

text \<open>
  How a column of a valid table lies over its axis \<open>xs\<close> with the stride \<open>s\<close>: the
  first line that holds the axis entry \<open>k\<close> is the line \<open>k * s\<close>, and the line \<open>s\<close>
  before the end holds the last entry.
\<close>

definition laid_out :: "real list \<Rightarrow> real list \<Rightarrow> nat \<Rightarrow> bool" where
  "laid_out col xs s \<longleftrightarrow>
     xs \<noteq> [] \<and> sorted_wrt (<) xs \<and> set col = set xs \<and> 0 < s \<and> s \<le> length col \<and>
     col ! (length col - s) = last xs \<and>
     (\<forall>k<length xs. k * s < length col \<and> col ! (k * s) = xs ! k \<and> (\<forall>i<k * s. col ! i \<noteq> xs ! k))"

text \<open>A 2-D array of \<open>n\<close> lines of \<open>m\<close> entries; the eight arrays have this shape.\<close>

definition array_shape :: "nat \<Rightarrow> nat \<Rightarrow> real list list \<Rightarrow> bool" where
  "array_shape n m A \<longleftrightarrow> length A = n \<and> (\<forall>line\<in>set A. length line = m)"

definition grids_shape :: "nat \<Rightarrow> nat \<Rightarrow> grids \<Rightarrow> bool" where
  "grids_shape n m g \<longleftrightarrow>
     array_shape n m (gVp g) \<and> array_shape n m (gVs g) \<and> array_shape n m (gVp_an g) \<and>
     array_shape n m (gVs_an g) \<and> array_shape n m (gVphi g) \<and> array_shape n m (gDens g) \<and>
     array_shape n m (gQs g) \<and> array_shape n m (gT_sol g)"

text \<open>
  The slice of the pressure block \<open>i\<close>, cut at the end of a table of \<open>len\<close> lines, can
  be assigned to a column of \<open>n\<close> lines: it has \<open>n\<close> entries or one.
\<close>

definition block_fits :: "nat \<Rightarrow> nat \<Rightarrow> nat \<Rightarrow> bool" where
  "block_fits len n i \<longleftrightarrow> min n (len - i * n) = n \<or> min n (len - i * n) = 1"

text \<open>
  The entry of column \<open>c\<close> that \<^verbatim>\<open>get_vals\<close> reads at the node \<open>(p, t)\<close>, and the
  blend it computes from the four nodes of a cell.
\<close>

definition stored :: "row list \<Rightarrow> real \<Rightarrow> real \<Rightarrow> nat \<Rightarrow> real" where
  "stored tab p t c = hd (take_cells tab (corner tab p t) c)"

definition blend :: "row list \<Rightarrow> real \<Rightarrow> real \<Rightarrow> real \<Rightarrow> real \<Rightarrow> real \<Rightarrow> real \<Rightarrow> nat \<Rightarrow> real" where
  "blend tab p_l p_u t_l t_u pval tval c =
     (let tn = norm_vals tval t_u t_l;
          pn = norm_vals pval p_u p_l;
          a = stored tab p_l t_l c + (stored tab p_l t_u c - stored tab p_l t_l c) * tn;
          b = stored tab p_u t_l c + (stored tab p_u t_u c - stored tab p_u t_l c) * tn
      in a + (b - a) * pn)"

definition six :: "(nat \<Rightarrow> real) \<Rightarrow> vals" where
  "six f = ([f 2], [f 3], [f 4], [f 5], [f 6], [f 7])"


section \<open>Auxiliary facts\<close>

subsection \<open>Lists, numpy operations\<close>

lemma bindE_Inr [simp]: "bindE (Inr x) f = f x"
  by (simp add: bindE_def)

lemma bindE_Inl [simp]: "bindE (Inl e) f = Inl e"
  by (simp add: bindE_def)

lemma column_0 [simp]: "column tab 0 = map rP tab"
  by (simp add: column_def cell_def)

lemma column_1 [simp]: "column tab (Suc 0) = map rT tab"
  by (simp add: column_def cell_def)

lemma set_np_unique [simp]: "set (np_unique xs) = set xs"
  by (simp add: np_unique_def)

lemma distinct_np_unique [simp]: "distinct (np_unique xs)"
  by (simp add: np_unique_def)

lemma sorted_np_unique [simp]: "sorted (np_unique xs)"
  by (simp add: np_unique_def)

lemma np_unique_Nil_iff [simp]: "np_unique xs = [] \<longleftrightarrow> xs = []"
  by (metis set_np_unique set_empty)

lemma strict_np_unique: "sorted_wrt (<) (np_unique xs)"
  by (simp add: strict_sorted_iff)

lemma filter_upt_Cons:
  "filter Q [m..<n] = i0 # rest \<Longrightarrow> m \<le> i0 \<and> i0 < n \<and> Q i0 \<and> (\<forall>i. m \<le> i \<and> i < i0 \<longrightarrow> \<not> Q i)"
proof (induction "n - m" arbitrary: m)
  case 0
  then show ?case by simp
next
  case (Suc d)
  then have mn: "m < n" by simp
  then have upt: "[m..<n] = m # [Suc m..<n]" by (simp add: upt_conv_Cons)
  show ?case
  proof (cases "Q m")
    case True
    with Suc.prems upt have "i0 = m" by simp
    with True mn show ?thesis by auto
  next
    case False
    with Suc.prems upt have f: "filter Q [Suc m..<n] = i0 # rest" by simp
    from Suc.hyps(2) have "d = n - Suc m" by simp
    from Suc.hyps(1)[OF this f] have ih: "Suc m \<le> i0 \<and> i0 < n \<and> Q i0 \<and> (\<forall>i. Suc m \<le> i \<and> i < i0 \<longrightarrow> \<not> Q i)" .
    show ?thesis
    proof (intro conjI allI impI)
      fix i assume a: "m \<le> i \<and> i < i0"
      show "\<not> Q i"
      proof (cases "i = m")
        case True then show ?thesis using False by simp
      next
        case False then show ?thesis using a ih by simp
      qed
    qed (use ih in auto)
  qed
qed

lemma np_where_Cons:
  assumes "np_where Q xs = i0 # rest"
  shows "i0 < length xs" "Q (xs ! i0)" "\<And>i. i < i0 \<Longrightarrow> \<not> Q (xs ! i)"
  using filter_upt_Cons[OF assms[unfolded np_where_def]] by auto

lemma np_where_nonempty:
  "i < length xs \<Longrightarrow> Q (xs ! i) \<Longrightarrow> np_where Q xs \<noteq> []"
  by (auto simp: np_where_def filter_empty_conv)

subsection \<open>Bound finding on a column laid out over its axis\<close>

lemma Min_set_sorted: "sorted_wrt (<) xs \<Longrightarrow> xs \<noteq> [] \<Longrightarrow> Min (set xs) = hd (xs::real list)"
  by (cases xs) (auto simp: Min_insert2 less_imp_le)

lemma Max_set_sorted: "sorted_wrt (<) xs \<Longrightarrow> xs \<noteq> [] \<Longrightarrow> Max (set xs) = last (xs::real list)"
proof -
  assume a: "sorted_wrt (<) xs" "xs \<noteq> []"
  then have s: "sorted xs" by (simp add: strict_sorted_iff)
  have "\<forall>x\<in>set xs. x \<le> last xs"
  proof
    fix x assume "x \<in> set xs"
    then obtain i where i: "i < length xs" "xs ! i = x" by (auto simp: in_set_conv_nth)
    have "xs ! i \<le> xs ! (length xs - 1)" using s i a by (intro sorted_nth_mono) auto
    then show "x \<le> last xs" using i a by (simp add: last_conv_nth)
  qed
  then show ?thesis using a by (intro Max_eqI) auto
qed

lemma laid_out_min: "laid_out col xs s \<Longrightarrow> np_min col = Inr (hd xs)"
  by (auto simp: laid_out_def np_min_def Min_set_sorted)

lemma laid_out_max: "laid_out col xs s \<Longrightarrow> np_max col = Inr (last xs)"
  by (auto simp: laid_out_def np_max_def Max_set_sorted)

lemma find_bounds_below:
  "laid_out col xs s \<Longrightarrow> v < hd xs \<Longrightarrow> find_bounds col s ml mh v = ([ml v], Inr (hd xs, hd xs))"
  by (simp add: find_bounds_def laid_out_min)

lemma hd_le_last: "sorted_wrt (<) xs \<Longrightarrow> xs \<noteq> [] \<Longrightarrow> hd xs \<le> last (xs::real list)"
proof -
  assume a: "sorted_wrt (<) xs" "xs \<noteq> []"
  then have "hd xs \<in> set xs" by simp
  then have "hd xs \<le> Max (set xs)" by (intro Max_ge) auto
  then show ?thesis using a by (simp add: Max_set_sorted)
qed

lemma find_bounds_above:
  assumes "laid_out col xs s" "last xs < v"
  shows "find_bounds col s ml mh v = ([mh v], Inr (last xs, last xs))"
proof -
  from assms(1) have "hd xs \<le> last xs" by (simp add: laid_out_def hd_le_last)
  with assms(2) have "\<not> v < hd xs" by simp
  then show ?thesis using assms
    by (simp add: find_bounds_def laid_out_min laid_out_max)
qed

lemma find_bounds_inside:
  assumes L: "laid_out col xs s" and lo: "hd xs \<le> v" and hi: "v \<le> last xs"
  shows "\<exists>l u. find_bounds col s ml mh v = ([], Inr (l, u)) \<and>
           ((v = hd xs \<and> l = last xs \<and> u = hd xs) \<or>
            (\<exists>a. Suc a < length xs \<and> l = xs ! a \<and> u = xs ! Suc a \<and> l < v \<and> v \<le> u))"
proof -
  from L have ne: "xs \<noteq> []" and st: "sorted_wrt (<) xs" and sc: "set col = set xs"
    and s0: "0 < s" and sl: "s \<le> length col" and wrap: "col ! (length col - s) = last xs"
    and lay: "\<And>k. k < length xs \<Longrightarrow> k * s < length col \<and> col ! (k * s) = xs ! k \<and> (\<forall>i<k * s. col ! i \<noteq> xs ! k)"
    by (auto simp: laid_out_def)
  have mono: "\<And>i j. i < j \<Longrightarrow> j < length xs \<Longrightarrow> xs ! i < xs ! j"
    using st by (simp add: sorted_wrt_nth_less)
  have cne: "col \<noteq> []" using s0 sl by auto
  define dist where "dist = map (\<lambda>x. \<bar>x - v\<bar>) col"
  define dmin where "dmin = Min (set dist)"
  have dne: "dist \<noteq> []" using cne by (simp add: dist_def)
  have nm: "np_min dist = Inr dmin" using dne by (simp add: np_min_def dmin_def)
  have "dmin \<in> set dist" unfolding dmin_def using dne by (intro Min_in) auto
  then obtain j where "j < length dist" "dist ! j = dmin" by (auto simp: in_set_conv_nth)
  then have "np_where (\<lambda>d. d = dmin) dist \<noteq> []" by (intro np_where_nonempty[of j]) auto
  then obtain i0 rest where W: "np_where (\<lambda>d. d = dmin) dist = i0 # rest"
    by (auto simp: neq_Nil_conv)
  from np_where_Cons[OF W] have i0: "i0 < length col" and di0: "dist ! i0 = dmin"
    and first: "\<And>i. i < i0 \<Longrightarrow> dist ! i \<noteq> dmin" by (auto simp: dist_def)
  have near: "\<bar>col ! i0 - v\<bar> \<le> \<bar>x - v\<bar>" if "x \<in> set xs" for x
  proof -
    from that sc have "\<bar>x - v\<bar> \<in> set dist" by (auto simp: dist_def)
    then have "dmin \<le> \<bar>x - v\<bar>" unfolding dmin_def by (intro Min_le) auto
    then show ?thesis using di0 i0 by (simp add: dist_def)
  qed
  have "col ! i0 \<in> set xs" using i0 sc by (metis nth_mem)
  then obtain k where k: "k < length xs" and xk: "xs ! k = col ! i0" by (auto simp: in_set_conv_nth)
  from lay[OF k] have ks: "k * s < length col" and cks: "col ! (k * s) = xs ! k"
    and kfirst: "\<And>i. i < k * s \<Longrightarrow> col ! i \<noteq> xs ! k" by auto
  have "dist ! (k * s) = dmin" using ks cks xk di0 i0 by (simp add: dist_def)
  with first have "\<not> k * s < i0" by blast
  moreover have "\<not> i0 < k * s" using kfirst xk by auto
  ultimately have i0k: "i0 = k * s" by simp
  have here: "py_index col (int i0) = Inr (xs ! k)"
    using i0 xk by (simp add: py_index_def)
  have unfold: "find_bounds col s ml mh v =
     (if xs ! k - v < 0 then
        (case py_index col (int i0 + int s) of Inl e \<Rightarrow> ([], Inl e) | Inr nxt \<Rightarrow> ([], Inr (xs ! k, nxt)))
      else
        (case py_index col (int i0 - int s) of Inl e \<Rightarrow> ([], Inl e) | Inr prv \<Rightarrow> ([], Inr (prv, xs ! k))))"
    using lo hi
    by (simp add: find_bounds_def laid_out_min[OF L] laid_out_max[OF L] dist_def[symmetric] nm W here
        del: of_nat_mult)
  show ?thesis
  proof (cases "xs ! k < v")
    case True
    have "Suc k < length xs"
    proof (rule ccontr)
      assume "\<not> Suc k < length xs"
      with k have "k = length xs - 1" by simp
      then have "xs ! k = last xs" using ne by (simp add: last_conv_nth)
      with True hi show False by simp
    qed
    from lay[OF this] have n1: "Suc k * s < length col" and n2: "col ! (Suc k * s) = xs ! Suc k" by auto
    have "int i0 + int s = int (Suc k * s)" using i0k by simp
    then have nx: "py_index col (int i0 + int s) = Inr (xs ! Suc k)"
      using n1 n2 by (simp add: py_index_def del: of_nat_mult of_nat_add mult_Suc)
    have "v \<le> xs ! Suc k"
    proof (rule ccontr)
      assume "\<not> v \<le> xs ! Suc k"
      then have lt: "xs ! Suc k < v" by simp
      have "xs ! k < xs ! Suc k" using mono[of k "Suc k"] \<open>Suc k < length xs\<close> by simp
      moreover have "\<bar>col ! i0 - v\<bar> \<le> \<bar>xs ! Suc k - v\<bar>"
        using near[of "xs ! Suc k"] \<open>Suc k < length xs\<close> by simp
      ultimately show False using lt True xk by simp
    qed
    then show ?thesis using True unfold nx \<open>Suc k < length xs\<close> by auto
  next
    case False
    then have ge: "v \<le> xs ! k" by simp
    show ?thesis
    proof (cases k)
      case 0
      then have "xs ! k = hd xs" using ne by (simp add: hd_conv_nth)
      with ge lo have v: "v = hd xs" by simp
      have "py_index col (int i0 - int s) = Inr (last xs)"
        using i0k 0 s0 sl wrap by (simp add: py_index_def nat_diff_distrib' of_nat_diff)
      then show ?thesis using False unfold v \<open>xs ! k = hd xs\<close> by auto
    next
      case (Suc a)
      then have a: "a < length xs" "Suc a < length xs" using k by auto
      from lay[OF a(1)] have p1: "a * s < length col" and p2: "col ! (a * s) = xs ! a" by auto
      have "int i0 - int s = int (a * s)" using i0k Suc by (simp add: algebra_simps)
      then have pv: "py_index col (int i0 - int s) = Inr (xs ! a)"
        using p1 p2 by (simp add: py_index_def del: of_nat_mult of_nat_add mult_Suc)
      have "xs ! a < v"
      proof (rule ccontr)
        assume "\<not> xs ! a < v"
        then have g: "v \<le> xs ! a" by simp
        have "xs ! a < xs ! k" using mono[of a k] k Suc by simp
        moreover have "\<bar>col ! i0 - v\<bar> \<le> \<bar>xs ! a - v\<bar>" using near[of "xs ! a"] a by simp
        ultimately show False using g ge xk by simp
      qed
      then show ?thesis using False unfold pv a ge Suc by auto
    qed
  qed
qed

subsection \<open>The columns of a valid table\<close>

lemma last_index_mod: "0 < a \<Longrightarrow> 0 < b \<Longrightarrow> (a * b - 1) mod b = b - (1::nat)"
proof -
  assume a: "0 < a" "0 < b"
  then obtain a' where a': "a = Suc a'" by (cases a) auto
  have "a * b - 1 = a' * b + (b - 1)" using a a' by (simp add: algebra_simps)
  then have "(a * b - 1) mod b = (b - 1 + a' * b) mod b" by (simp add: add.commute)
  also have "\<dots> = (b - 1) mod b" by (rule mod_mult_self1)
  also have "\<dots> = b - 1" using a by simp
  finally show ?thesis .
qed

lemma length_np_unique: "length (np_unique xs) = length (remdups xs)"
  by (simp add: np_unique_def)

lemma remdups_block:
  "0 < n \<Longrightarrow> q \<notin> set rest \<Longrightarrow> remdups (replicate n q @ rest) = q # remdups rest"
proof (induction n)
  case 0
  then show ?case by simp
next
  case (Suc n)
  show ?case
  proof (cases "n = 0")
    case True
    with Suc.prems show ?thesis by simp
  next
    case False
    with Suc show ?thesis by simp
  qed
qed

lemma fst_product_blocks:
  "map fst (List.product (q # qs) ts) = replicate (length ts) q @ map fst (List.product qs ts)"
  by (simp add: map_replicate_const comp_def)

lemma remdups_fst_product:
  "distinct qs \<Longrightarrow> ts \<noteq> [] \<Longrightarrow> remdups (map fst (List.product qs ts)) = qs"
proof (induction qs)
  case Nil
  then show ?case by simp
next
  case (Cons q qs)
  have "q \<notin> set (map fst (List.product qs ts))" using Cons.prems(1) by auto
  then have "remdups (replicate (length ts) q @ map fst (List.product qs ts))
      = q # remdups (map fst (List.product qs ts))"
    using Cons.prems(2) by (intro remdups_block) simp_all
  then show ?case using Cons unfolding fst_product_blocks by simp
qed

lemma valid_table_iff:
  "valid_table tab \<longleftrightarrow>
     tab \<noteq> [] \<and> (\<exists>qs. distinct qs \<and> nodes tab = List.product qs (np_unique (column tab 1)))"
proof
  assume "valid_table tab"
  then have "tab \<noteq> []"
    and "distinct (remdups (column tab 0)) \<and>
         nodes tab = List.product (remdups (column tab 0)) (np_unique (column tab 1))"
    by (simp_all add: valid_table_def)
  then show "tab \<noteq> [] \<and> (\<exists>qs. distinct qs \<and> nodes tab = List.product qs (np_unique (column tab 1)))"
    by blast
next
  assume a: "tab \<noteq> [] \<and> (\<exists>qs. distinct qs \<and> nodes tab = List.product qs (np_unique (column tab 1)))"
  then obtain qs where qs: "distinct qs" "nodes tab = List.product qs (np_unique (column tab 1))"
    by blast
  from a have ts: "np_unique (column tab 1) \<noteq> []" by simp
  have "column tab 0 = map fst (nodes tab)" by (simp add: nodes_def comp_def)
  then have "remdups (column tab 0) = qs"
    unfolding qs(2) using remdups_fst_product[OF qs(1) ts] by simp
  with a qs(2) show "valid_table tab" by (simp add: valid_table_def)
qed

lemma valid_length:
  "valid_table tab \<Longrightarrow> length tab = length (np_unique (map rP tab)) * length (np_unique (map rT tab))"
proof -
  assume "valid_table tab"
  then have "nodes tab = List.product (remdups (map rP tab)) (np_unique (map rT tab))"
    by (simp add: valid_table_def)
  then have "length (nodes tab) = length (remdups (map rP tab)) * length (np_unique (map rT tab))"
    by simp
  then show ?thesis by (simp add: nodes_def length_np_unique)
qed

lemma valid_axes_nonempty:
  "valid_table tab \<Longrightarrow> np_unique (map rP tab) \<noteq> [] \<and> np_unique (map rT tab) \<noteq> []"
  by (simp add: valid_table_def)

lemma valid_distinct: "valid_table tab \<Longrightarrow> distinct (nodes tab)"
  by (simp add: valid_table_def distinct_product)

lemma valid_nth_T:
  assumes "valid_table tab" "i < length tab"
  shows "rT (tab ! i) = np_unique (map rT tab) ! (i mod length (np_unique (map rT tab)))"
proof -
  let ?qs = "remdups (map rP tab)" and ?ts = "np_unique (map rT tab)"
  have "nodes tab ! i = List.product ?qs ?ts ! i" using assms(1) by (simp add: valid_table_def)
  also have "\<dots> = (?qs ! (i div length ?ts), ?ts ! (i mod length ?ts))"
    using assms valid_length[OF assms(1)] by (simp add: product_nth length_np_unique)
  finally have "(rP (tab ! i), rT (tab ! i)) = (?qs ! (i div length ?ts), ?ts ! (i mod length ?ts))"
    using assms(2) by (simp add: nodes_def)
  then show ?thesis by simp
qed

lemma ascending_valid: "ascending_table tab \<Longrightarrow> valid_table tab"
  by (simp add: ascending_table_def)

lemma ascending_product:
  assumes "ascending_table tab"
  shows "nodes tab = List.product (np_unique (map rP tab)) (np_unique (map rT tab))"
proof -
  from assms have "sorted (remdups (map rP tab))" by (simp add: ascending_table_def)
  then have "np_unique (map rP tab) = remdups (map rP tab)"
    by (simp add: np_unique_def sorted_sort_id)
  then show ?thesis using assms by (simp add: ascending_table_def valid_table_def)
qed

lemma valid_nth:
  assumes "ascending_table tab" "i < length tab"
  shows "rP (tab ! i) = np_unique (map rP tab) ! (i div length (np_unique (map rT tab)))"
    and "rT (tab ! i) = np_unique (map rT tab) ! (i mod length (np_unique (map rT tab)))"
proof -
  let ?ps = "np_unique (map rP tab)" and ?ts = "np_unique (map rT tab)"
  have "nodes tab ! i = List.product ?ps ?ts ! i" using ascending_product[OF assms(1)] by simp
  also have "\<dots> = (?ps ! (i div length ?ts), ?ts ! (i mod length ?ts))"
    using assms valid_length[OF ascending_valid[OF assms(1)]] by (simp add: product_nth)
  finally have "(rP (tab ! i), rT (tab ! i)) = (?ps ! (i div length ?ts), ?ts ! (i mod length ?ts))"
    using assms(2) by (simp add: nodes_def)
  then show "rP (tab ! i) = ?ps ! (i div length ?ts)" "rT (tab ! i) = ?ts ! (i mod length ?ts)"
    by simp_all
qed

lemma laid_out_pressure:
  assumes A: "ascending_table tab"
  shows "laid_out (column tab 0) (np_unique (map rP tab)) (length (np_unique (map rT tab)))"
proof -
  let ?ps = "np_unique (map rP tab)" and ?ts = "np_unique (map rT tab)"
  let ?np = "length ?ps" and ?nt = "length ?ts"
  note V = ascending_valid[OF A]
  from valid_axes_nonempty[OF V] have np0: "0 < ?np" and nt0: "0 < ?nt" by auto
  have len: "length tab = ?np * ?nt" by (rule valid_length[OF V])
  have nth: "\<And>i. i < length tab \<Longrightarrow> map rP tab ! i = ?ps ! (i div ?nt)"
    using valid_nth(1)[OF A] by simp
  have "1 * ?nt \<le> ?np * ?nt" using np0 by (intro mult_le_mono1) linarith
  then have le: "?nt \<le> length tab" using len by simp
  have "length tab - ?nt = (?np - 1) * ?nt" using len by (simp add: diff_mult_distrib)
  then have "(length tab - ?nt) div ?nt = ?np - 1" using nt0 by simp
  moreover have "length tab - ?nt < length tab" using nt0 le by simp
  ultimately have wrap: "map rP tab ! (length tab - ?nt) = last ?ps"
    using nth[of "length tab - ?nt"] np0 by (simp add: last_conv_nth)
  have lay: "k * ?nt < length tab \<and> map rP tab ! (k * ?nt) = ?ps ! k \<and>
        (\<forall>i<k * ?nt. map rP tab ! i \<noteq> ?ps ! k)" if k: "k < ?np" for k
  proof (intro conjI allI impI)
    show klt: "k * ?nt < length tab" using k nt0 len by simp
    show "map rP tab ! (k * ?nt) = ?ps ! k" using nth[OF klt] nt0 by simp
    fix i assume i: "i < k * ?nt"
    then have d: "i div ?nt < k" using nt0 by (simp add: less_mult_imp_div_less)
    have "i < length tab" using i klt by simp
    then have "map rP tab ! i = ?ps ! (i div ?nt)" by (rule nth)
    moreover have "?ps ! (i div ?nt) \<noteq> ?ps ! k"
      using d k by (simp add: nth_eq_iff_index_eq)
    ultimately show "map rP tab ! i \<noteq> ?ps ! k" by simp
  qed
  have c1: "?ps \<noteq> []" using np0 by auto
  have c2: "sorted_wrt (<) ?ps" by (rule strict_np_unique)
  have c3: "set (map rP tab) = set ?ps" by simp
  have c5: "?nt \<le> length (map rP tab)" using le by simp
  have c6: "map rP tab ! (length (map rP tab) - ?nt) = last ?ps" using wrap by simp
  have c7: "\<forall>k<?np. k * ?nt < length (map rP tab) \<and> map rP tab ! (k * ?nt) = ?ps ! k \<and>
        (\<forall>i<k * ?nt. map rP tab ! i \<noteq> ?ps ! k)" using lay by (simp del: nth_map)
  show ?thesis
    unfolding laid_out_def column_0
    using c1 c2 c3 nt0 c5 c6 c7 by blast
qed

lemma laid_out_temperature:
  assumes V: "valid_table tab"
  shows "laid_out (column tab 1) (np_unique (map rT tab)) 1"
proof -
  let ?ps = "np_unique (map rP tab)" and ?ts = "np_unique (map rT tab)"
  let ?np = "length ?ps" and ?nt = "length ?ts"
  from valid_axes_nonempty[OF V] have np0: "0 < ?np" and nt0: "0 < ?nt" by auto
  have len: "length tab = ?np * ?nt" by (rule valid_length[OF V])
  have nth: "\<And>i. i < length tab \<Longrightarrow> map rT tab ! i = ?ts ! (i mod ?nt)"
    using valid_nth_T[OF V] by simp
  have "1 * ?nt \<le> ?np * ?nt" using np0 by (intro mult_le_mono1) linarith
  then have le: "?nt \<le> length tab" using len by simp
  have "(length tab - 1) mod ?nt = ?nt - 1" unfolding len using np0 nt0 by (rule last_index_mod)
  moreover have "length tab - 1 < length tab" using nt0 le by simp
  ultimately have wrap: "map rT tab ! (length tab - 1) = last ?ts"
    using nth[of "length tab - 1"] nt0 by (simp add: last_conv_nth)
  have lay: "k < length tab \<and> map rT tab ! k = ?ts ! k \<and>
        (\<forall>i<k. map rT tab ! i \<noteq> ?ts ! k)" if k: "k < ?nt" for k
  proof (intro conjI allI impI)
    show klt: "k < length tab" using k le by simp
    show "map rT tab ! k = ?ts ! k" using nth[OF klt] k by simp
    fix i assume i: "i < k"
    have "i < length tab" using i klt by simp
    then have "map rT tab ! i = ?ts ! i" using nth[of i] i k by simp
    moreover have "?ts ! i \<noteq> ?ts ! k"
      using i k by (simp add: nth_eq_iff_index_eq)
    ultimately show "map rT tab ! i \<noteq> ?ts ! k" by simp
  qed
  have col: "column tab 1 = map rT tab" by simp
  have c1: "?ts \<noteq> []" using nt0 by auto
  have c2: "sorted_wrt (<) ?ts" by (rule strict_np_unique)
  have c3: "set (map rT tab) = set ?ts" by simp
  have c4: "0 < (1::nat)" by simp
  have c5: "1 \<le> length (map rT tab)" using V by (cases tab) (auto simp: valid_table_def)
  have c6: "map rT tab ! (length (map rT tab) - 1) = last ?ts" using wrap by simp
  have c7: "\<forall>k<?nt. k * 1 < length (map rT tab) \<and> map rT tab ! (k * 1) = ?ts ! k \<and>
        (\<forall>i<k * 1. map rT tab ! i \<noteq> ?ts ! k)"
  proof (intro allI impI)
    fix k assume "k < ?nt"
    from lay[OF this] show "k * 1 < length (map rT tab) \<and> map rT tab ! (k * 1) = ?ts ! k \<and>
        (\<forall>i<k * 1. map rT tab ! i \<noteq> ?ts ! k)"
      by (simp only: mult_1_right length_map) blast
  qed
  show ?thesis
    unfolding laid_out_def col
    using c1 c2 c3 c4 c5 c6 c7 by blast
qed

subsection \<open>Construction\<close>

lemma assign_column_ok:
  assumes "array_shape n m A" "length vals = n \<or> length vals = 1"
  shows "\<exists>A'. assign_column A i vals = Inr A' \<and> array_shape n m A'"
proof (cases "length vals = n")
  case True
  have "array_shape n m (map2 (\<lambda>line v. line[i := v]) A vals)"
    using assms(1) True by (auto simp: array_shape_def dest: set_zip_leftD)
  then show ?thesis using assms(1) True by (simp add: assign_column_def array_shape_def)
next
  case False
  with assms(2) have one: "length vals = 1" by simp
  have "array_shape n m (map (\<lambda>line. line[i := hd vals]) A)"
    using assms(1) by (auto simp: array_shape_def)
  then show ?thesis using assms(1) False one by (auto simp: assign_column_def array_shape_def)
qed

lemma assign_column_bad:
  "\<not> (length vals = length A \<or> length vals = 1) \<Longrightarrow> assign_column A i vals = Inl ValueError"
  by (simp add: assign_column_def)

lemma column_one [simp]: "column tab 1 = map rT tab"
  by (simp add: column_def cell_def)

lemma length_block:
  "length (column (py_slice tab (0 + i * n) (n + i * n)) c) = min n (length tab - i * n)"
  by (simp add: column_def py_slice_def min.commute)

lemma fill_step_ok:
  assumes "grids_shape n m g" "block_fits (length tab) n i"
  shows "\<exists>g'. fill_step tab n i g = Inr g' \<and> grids_shape n m g'"
proof -
  let ?b = "py_slice tab (0 + i * n) (n + i * n)"
  have ok: "\<exists>A'. assign_column A i (column ?b c) = Inr A' \<and> array_shape n m A'"
    if "array_shape n m A" for A c
  proof -
    have "length (column ?b c) = n \<or> length (column ?b c) = 1"
      unfolding length_block using assms(2) by (simp only: block_fits_def)
    from assign_column_ok[OF that this] show ?thesis .
  qed
  from assms(1) have l: "array_shape n m (gVp g)" "array_shape n m (gVs g)"
    "array_shape n m (gVp_an g)" "array_shape n m (gVs_an g)" "array_shape n m (gVphi g)"
    "array_shape n m (gDens g)" "array_shape n m (gQs g)" "array_shape n m (gT_sol g)"
    by (simp_all add: grids_shape_def)
  from ok[OF l(1), of 2] obtain a2 where a2: "assign_column (gVp g) i (column ?b 2) = Inr a2" "array_shape n m a2" by blast
  from ok[OF l(2), of 3] obtain a3 where a3: "assign_column (gVs g) i (column ?b 3) = Inr a3" "array_shape n m a3" by blast
  from ok[OF l(3), of 4] obtain a4 where a4: "assign_column (gVp_an g) i (column ?b 4) = Inr a4" "array_shape n m a4" by blast
  from ok[OF l(4), of 5] obtain a5 where a5: "assign_column (gVs_an g) i (column ?b 5) = Inr a5" "array_shape n m a5" by blast
  from ok[OF l(5), of 6] obtain a6 where a6: "assign_column (gVphi g) i (column ?b 6) = Inr a6" "array_shape n m a6" by blast
  from ok[OF l(6), of 7] obtain a7 where a7: "assign_column (gDens g) i (column ?b 7) = Inr a7" "array_shape n m a7" by blast
  from ok[OF l(7), of 8] obtain a8 where a8: "assign_column (gQs g) i (column ?b 8) = Inr a8" "array_shape n m a8" by blast
  from ok[OF l(8), of 9] obtain a9 where a9: "assign_column (gT_sol g) i (column ?b 9) = Inr a9" "array_shape n m a9" by blast
  show ?thesis
    unfolding fill_step_def Let_def
    by (simp only: a2 a3 a4 a5 a6 a7 a8 a9 bindE_Inr) (simp add: grids_shape_def a2 a3 a4 a5 a6 a7 a8 a9)
qed

lemma fill_step_bad:
  assumes "grids_shape n m g" "\<not> block_fits (length tab) n i"
  shows "fill_step tab n i g = Inl ValueError"
proof -
  let ?b = "py_slice tab (0 + i * n) (n + i * n)"
  have n: "length (gVp g) = n" using assms(1) by (simp add: grids_shape_def array_shape_def)
  have "\<not> (min n (length tab - i * n) = n \<or> min n (length tab - i * n) = 1)"
    using assms(2) unfolding block_fits_def .
  then have "\<not> (length (column ?b 2) = length (gVp g) \<or> length (column ?b 2) = 1)"
    by (simp only: length_block n simp_thms)
  then have "assign_column (gVp g) i (column ?b 2) = Inl ValueError"
    by (rule assign_column_bad)
  then show ?thesis unfolding fill_step_def Let_def by (simp only: bindE_Inl)
qed

lemma fill_loop_ok:
  "grids_shape n m g \<Longrightarrow> \<forall>i\<in>set js. block_fits (length tab) n i \<Longrightarrow>
     \<exists>g'. fill_loop tab n js g = Inr g' \<and> grids_shape n m g'"
proof (induction js arbitrary: g)
  case Nil
  then show ?case by simp
next
  case (Cons j js)
  from fill_step_ok[OF Cons.prems(1), of tab j] Cons.prems(2)
  obtain g1 where g1: "fill_step tab n j g = Inr g1" "grids_shape n m g1" by auto
  from Cons.IH[OF g1(2)] Cons.prems(2) show ?case by (simp add: g1(1))
qed

lemma fill_loop_bad:
  "grids_shape n m g \<Longrightarrow> \<exists>i\<in>set js. \<not> block_fits (length tab) n i \<Longrightarrow>
     fill_loop tab n js g = Inl ValueError"
proof (induction js arbitrary: g)
  case Nil
  then show ?case by simp
next
  case (Cons j js)
  show ?case
  proof (cases "block_fits (length tab) n j")
    case True
    from fill_step_ok[OF Cons.prems(1) True]
    obtain g1 where g1: "fill_step tab n j g = Inr g1" "grids_shape n m g1" by auto
    from Cons.prems(2) True have "\<exists>i\<in>set js. \<not> block_fits (length tab) n i" by auto
    from Cons.IH[OF g1(2) this] show ?thesis by (simp add: g1(1))
  next
    case False
    from fill_step_bad[OF Cons.prems(1) False] show ?thesis by simp
  qed
qed

lemma all_blocks_fit:
  assumes "0 < np" "0 < nt"
  shows "(\<forall>i<np. block_fits len nt i) \<longleftrightarrow> np * nt \<le> len \<or> len = (np - 1) * nt + 1"
proof
  assume all: "\<forall>i<np. block_fits len nt i"
  show "np * nt \<le> len \<or> len = (np - 1) * nt + 1"
  proof (cases "np * nt \<le> len")
    case True then show ?thesis by simp
  next
    case False
    obtain m where m: "np = Suc m" using assms(1) by (cases np) auto
    have sub: "\<And>a b c::nat. 0 < b \<Longrightarrow> a < b + c \<Longrightarrow> a - c < b" by arith
    from False m have "len < nt + m * nt" by (simp add: not_le)
    with assms(2) have lt: "len - m * nt < nt" by (rule sub)
    from all m have "block_fits len nt m" by simp
    with lt have one: "len - m * nt = 1" by (auto simp: block_fits_def min_def split: if_splits)
    then have "len = m * nt + 1" by arith
    then show ?thesis using m by simp
  qed
next
  assume r: "np * nt \<le> len \<or> len = (np - 1) * nt + 1"
  show "\<forall>i<np. block_fits len nt i"
  proof (intro allI impI)
    fix i assume i: "i < np"
    from r show "block_fits len nt i"
    proof
      assume "np * nt \<le> len"
      moreover have "Suc i * nt \<le> np * nt" using i by (intro mult_le_mono1) simp
      ultimately have "nt \<le> len - i * nt" by simp
      then show ?thesis by (simp add: block_fits_def)
    next
      assume e: "len = (np - 1) * nt + 1"
      show ?thesis
      proof (cases "i = np - 1")
        case True
        with e have "len - i * nt = 1" by simp
        then show ?thesis using assms(2) by (simp add: block_fits_def min_def)
      next
        case False
        with i have "Suc i \<le> np - 1" by simp
        then have "Suc i * nt \<le> (np - 1) * nt" by (intro mult_le_mono1)
        with e have "nt \<le> len - i * nt" by simp
        then show ?thesis by (simp add: block_fits_def)
      qed
    qed
  qed
qed

lemma zeros_shape: "grids_shape n m \<lparr>gVp = np_zeros n m, gVs = np_zeros n m, gVp_an = np_zeros n m,
    gVs_an = np_zeros n m, gVphi = np_zeros n m, gDens = np_zeros n m, gQs = np_zeros n m,
    gT_sol = np_zeros n m\<rparr>"
  by (simp add: grids_shape_def array_shape_def np_zeros_def)

lemma init_empty: "init ip [] = Inl ValueError"
  by (simp add: init_def np_unique_def np_max_def column_def)

lemma init_unfold:
  assumes ne: "tab \<noteq> []"
  shows "init ip tab =
     bindE (fill_loop tab (length (np_unique (map rT tab))) [0..<length (np_unique (map rP tab))]
        \<lparr>gVp = np_zeros (length (np_unique (map rT tab))) (length (np_unique (map rP tab))),
         gVs = np_zeros (length (np_unique (map rT tab))) (length (np_unique (map rP tab))),
         gVp_an = np_zeros (length (np_unique (map rT tab))) (length (np_unique (map rP tab))),
         gVs_an = np_zeros (length (np_unique (map rT tab))) (length (np_unique (map rP tab))),
         gVphi = np_zeros (length (np_unique (map rT tab))) (length (np_unique (map rP tab))),
         gDens = np_zeros (length (np_unique (map rT tab))) (length (np_unique (map rP tab))),
         gQs = np_zeros (length (np_unique (map rT tab))) (length (np_unique (map rP tab))),
         gT_sol = np_zeros (length (np_unique (map rT tab))) (length (np_unique (map rP tab)))\<rparr>) (\<lambda>g.
     bindE (ip (np_unique (map rP tab)) (np_unique (map rT tab)) (gVp g)) (\<lambda>i2.
     bindE (ip (np_unique (map rP tab)) (np_unique (map rT tab)) (gVs g)) (\<lambda>i3.
     bindE (ip (np_unique (map rP tab)) (np_unique (map rT tab)) (gVp_an g)) (\<lambda>i4.
     bindE (ip (np_unique (map rP tab)) (np_unique (map rT tab)) (gVs_an g)) (\<lambda>i5.
     bindE (ip (np_unique (map rP tab)) (np_unique (map rT tab)) (gVphi g)) (\<lambda>i6.
     bindE (ip (np_unique (map rP tab)) (np_unique (map rT tab)) (gDens g)) (\<lambda>i7.
     bindE (ip (np_unique (map rP tab)) (np_unique (map rT tab)) (gQs g)) (\<lambda>i8.
     bindE (ip (np_unique (map rP tab)) (np_unique (map rT tab)) (gT_sol g)) (\<lambda>i9.
       Inr \<lparr>table = tab, P_col = map rP tab, T_col = map rT tab,
            pres = np_unique (map rP tab), temp = np_unique (map rT tab),
            n_uniq_p = length (np_unique (map rP tab)), n_uniq_t = length (np_unique (map rT tab)),
            t_max = Max (set (np_unique (map rT tab))), t_min = Min (set (np_unique (map rT tab))),
            p_max = Max (set (np_unique (map rP tab))), p_min = Min (set (np_unique (map rP tab))),
            pstep = length (np_unique (map rT tab)),
            fields_dict = [(''vp'', (2, gVp g, ''km/s'')), (''vs'', (3, gVs g, ''km/s'')),
                           (''vp_ani'', (4, gVp_an g, ''km/s'')),
                           (''vs_ani'', (5, gVs_an g, ''km/s'')),
                           (''vphi'', (6, gVphi g, ''km/s'')),
                           (''density'', (7, gDens g, ''$kg/m^3$'')),
                           (''qs'', (8, gQs g, ''Hz'')), (''t_sol'', (9, gT_sol g, ''K''))],
            vp_interp = i2, vs_interp = i3, vp_an_interp = i4, vs_an_interp = i5,
            vphi_interp = i6, density_interp = i7, qs_interp = i8,
            t_sol_interp = i9\<rparr>)))))))))"
proof -
  let ?ps = "np_unique (map rP tab)" and ?ts = "np_unique (map rT tab)"
  have mm: "np_max ?ts = Inr (Max (set ?ts))" "np_min ?ts = Inr (Min (set ?ts))"
    "np_max ?ps = Inr (Max (set ?ps))" "np_min ?ps = Inr (Min (set ?ps))"
    using ne by (simp_all add: np_max_def np_min_def)
  show ?thesis
    unfolding init_def Let_def column_0 column_one
    by (simp only: mm bindE_Inr)
qed

lemma init_attrs:
  assumes "init ip tab = Inr self"
  shows "table self = tab" "pstep self = length (np_unique (map rT tab))"
    "pres self = np_unique (map rP tab)" "temp self = np_unique (map rT tab)"
    "map fst (fields_dict self) = [''vp'', ''vs'', ''vp_ani'', ''vs_ani'', ''vphi'', ''density'', ''qs'', ''t_sol'']"
    "p_min self = Min (set (pres self))" "p_max self = Max (set (pres self))"
    "t_min self = Min (set (temp self))" "t_max self = Max (set (temp self))"
proof -
  have ne: "tab \<noteq> []" using assms init_empty[of ip] by auto
  from assms[unfolded init_unfold[OF ne]]
  show "table self = tab" "pstep self = length (np_unique (map rT tab))"
    "pres self = np_unique (map rP tab)" "temp self = np_unique (map rT tab)"
    "map fst (fields_dict self) = [''vp'', ''vs'', ''vp_ani'', ''vs_ani'', ''vphi'', ''density'', ''qs'', ''t_sol'']"
    "p_min self = Min (set (pres self))" "p_max self = Max (set (pres self))"
    "t_min self = Min (set (temp self))" "t_max self = Max (set (temp self))"
    by (auto simp: bindE_def split: sum.splits)
qed

lemma init_fill_fails:
  assumes ne: "tab \<noteq> []"
    and bad: "\<not> (\<forall>i<length (np_unique (map rP tab)). block_fits (length tab) (length (np_unique (map rT tab))) i)"
  shows "init ip tab = Inl ValueError"
proof -
  from bad have "\<exists>i\<in>set [0..<length (np_unique (map rP tab))].
      \<not> block_fits (length tab) (length (np_unique (map rT tab))) i" by auto
  from fill_loop_bad[OF zeros_shape this] show ?thesis
    unfolding init_unfold[OF ne] by (simp only: bindE_Inl)
qed

lemma init_succeeds:
  assumes ne: "tab \<noteq> []"
    and ok: "\<forall>i<length (np_unique (map rP tab)). block_fits (length tab) (length (np_unique (map rT tab))) i"
    and acc: "\<And>z. array_shape (length (np_unique (map rT tab))) (length (np_unique (map rP tab))) z
                \<Longrightarrow> \<exists>f. ip (np_unique (map rP tab)) (np_unique (map rT tab)) z = Inr f"
  shows "\<exists>self. init ip tab = Inr self"
proof -
  let ?ps = "np_unique (map rP tab)" and ?ts = "np_unique (map rT tab)"
  from ok have "\<forall>i\<in>set [0..<length ?ps]. block_fits (length tab) (length ?ts) i" by simp
  from fill_loop_ok[OF zeros_shape this] obtain g
    where g: "fill_loop tab (length ?ts) [0..<length ?ps]
        \<lparr>gVp = np_zeros (length ?ts) (length ?ps), gVs = np_zeros (length ?ts) (length ?ps),
         gVp_an = np_zeros (length ?ts) (length ?ps), gVs_an = np_zeros (length ?ts) (length ?ps),
         gVphi = np_zeros (length ?ts) (length ?ps), gDens = np_zeros (length ?ts) (length ?ps),
         gQs = np_zeros (length ?ts) (length ?ps), gT_sol = np_zeros (length ?ts) (length ?ps)\<rparr> = Inr g"
      and sh: "grids_shape (length ?ts) (length ?ps) g"
    by blast
  from sh have l: "array_shape (length ?ts) (length ?ps) (gVp g)" "array_shape (length ?ts) (length ?ps) (gVs g)"
    "array_shape (length ?ts) (length ?ps) (gVp_an g)" "array_shape (length ?ts) (length ?ps) (gVs_an g)"
    "array_shape (length ?ts) (length ?ps) (gVphi g)" "array_shape (length ?ts) (length ?ps) (gDens g)"
    "array_shape (length ?ts) (length ?ps) (gQs g)" "array_shape (length ?ts) (length ?ps) (gT_sol g)"
    by (simp_all add: grids_shape_def)
  from acc[OF l(1)] obtain i2 where i2: "ip ?ps ?ts (gVp g) = Inr i2" by blast
  from acc[OF l(2)] obtain i3 where i3: "ip ?ps ?ts (gVs g) = Inr i3" by blast
  from acc[OF l(3)] obtain i4 where i4: "ip ?ps ?ts (gVp_an g) = Inr i4" by blast
  from acc[OF l(4)] obtain i5 where i5: "ip ?ps ?ts (gVs_an g) = Inr i5" by blast
  from acc[OF l(5)] obtain i6 where i6: "ip ?ps ?ts (gVphi g) = Inr i6" by blast
  from acc[OF l(6)] obtain i7 where i7: "ip ?ps ?ts (gDens g) = Inr i7" by blast
  from acc[OF l(7)] obtain i8 where i8: "ip ?ps ?ts (gQs g) = Inr i8" by blast
  from acc[OF l(8)] obtain i9 where i9: "ip ?ps ?ts (gT_sol g) = Inr i9" by blast
  show ?thesis
    unfolding init_unfold[OF ne] by (simp only: g i2 i3 i4 i5 i6 i7 i8 i9 bindE_Inr) blast
qed

subsection \<open>Corner lookup and the blend\<close>

lemma filter_eq_upt: "filter (\<lambda>j. j = i) [0..<n] = (if i < n then [i] else [])"
  by (induction n) auto

lemma corner_filter:
  "corner tab p t = filter (\<lambda>i. rP (tab ! i) = p \<and> rT (tab ! i) = t) [0..<length tab]"
proof -
  let ?A = "filter (\<lambda>i. map rP tab ! i = p) [0..<length tab]"
  let ?B = "filter (\<lambda>i. map rT tab ! i = t) [0..<length tab]"
  have "filter (\<lambda>x. x \<in> set ?B) ?A = filter (\<lambda>i. rP (tab ! i) = p \<and> rT (tab ! i) = t) [0..<length tab]"
    by (auto intro!: filter_cong)
  moreover have "sorted (filter (\<lambda>i. rP (tab ! i) = p \<and> rT (tab ! i) = t) [0..<length tab])"
    by (simp add: sorted_wrt_filter)
  moreover have "distinct (filter (\<lambda>i. rP (tab ! i) = p \<and> rT (tab ! i) = t) [0..<length tab])"
    by simp
  ultimately show ?thesis
    by (simp add: corner_def np_intersect1d_def np_where_def sorted_sort_id distinct_remdups_id)
qed

lemma corner_row:
  assumes "distinct (nodes tab)" "i < length tab"
  shows "corner tab (rP (tab ! i)) (rT (tab ! i)) = [i]"
proof -
  have "rP (tab ! j) = rP (tab ! i) \<and> rT (tab ! j) = rT (tab ! i) \<longleftrightarrow> j = i" if "j < length tab" for j
  proof -
    have "length (nodes tab) = length tab" by (simp add: nodes_def)
    then have "nodes tab ! j = nodes tab ! i \<longleftrightarrow> j = i"
      using assms that nth_eq_iff_index_eq[of "nodes tab" j i] by simp
    then show ?thesis using assms(2) that by (simp add: nodes_def)
  qed
  then have "filter (\<lambda>j. rP (tab ! j) = rP (tab ! i) \<and> rT (tab ! j) = rT (tab ! i)) [0..<length tab]
      = filter (\<lambda>j. j = i) [0..<length tab]"
    by (intro filter_cong) auto
  then show ?thesis using assms(2) by (simp add: corner_filter filter_eq_upt)
qed

lemma cells_of_row:
  assumes "valid_table tab" "r \<in> set tab"
  shows "take_cells tab (corner tab (rP r) (rT r)) c = [cell r c]"
proof -
  from assms(2) obtain i where i: "i < length tab" "tab ! i = r" by (auto simp: in_set_conv_nth)
  from corner_row[OF valid_distinct[OF assms(1)] i(1)] i(2)
  show ?thesis by (simp add: take_cells_def)
qed

lemma node_row:
  assumes V: "valid_table tab" and p: "p \<in> set (map rP tab)" and t: "t \<in> set (map rT tab)"
  shows "\<exists>r\<in>set tab. rP r = p \<and> rT r = t"
proof -
  have "(p, t) \<in> set (List.product (remdups (map rP tab)) (np_unique (map rT tab)))"
    using p t by simp
  then have "(p, t) \<in> set (nodes tab)" using V by (simp add: valid_table_def)
  then show ?thesis by (auto simp: nodes_def)
qed

lemma stored_cells:
  assumes V: "valid_table tab" and p: "p \<in> set (map rP tab)" and t: "t \<in> set (map rT tab)"
  shows "take_cells tab (corner tab p t) c = [stored tab p t c]"
proof -
  from node_row[OF V p t] obtain r where r: "r \<in> set tab" "rP r = p" "rT r = t" by blast
  from cells_of_row[OF V r(1), of c] r show ?thesis by (simp add: stored_def)
qed

lemma stored_row: "valid_table tab \<Longrightarrow> r \<in> set tab \<Longrightarrow> stored tab (rP r) (rT r) c = cell r c"
  by (simp add: stored_def cells_of_row)

lemma int_linear_single:
  "int_linear [a] [b] [c] [d] tf pf =
     Inr [(a + (b - a) * tf) + ((c + (d - c) * tf) - (a + (b - a) * tf)) * pf]"
  by (simp add: int_linear_def np_binop_def)

lemma get_vals_eval:
  assumes V: "valid_table tab" and I: "init ip tab = Inr self"
    and pb: "pressure_bounds self p = (m1, Inr (pl, pu))"
    and pm: "pl \<in> set (map rP tab)" "pu \<in> set (map rP tab)"
    and tb: "temperature_bounds self t = (m2, Inr (tlo, thi))"
    and tm: "tlo \<in> set (map rT tab)" "thi \<in> set (map rT tab)"
  shows "get_vals self p t = (m1 @ m2, Inr (six (blend tab pl pu tlo thi p t)))"
proof -
  have T: "table self = tab" using init_attrs(1)[OF I] .
  have f: "interp_cells tab (corner tab pl tlo) (corner tab pl thi) (corner tab pu tlo) (corner tab pu thi)
             (norm_vals t thi tlo) (norm_vals p pu pl) c = Inr [blend tab pl pu tlo thi p t c]" for c
    unfolding interp_cells_def stored_cells[OF V pm(1) tm(1)] stored_cells[OF V pm(1) tm(2)]
      stored_cells[OF V pm(2) tm(1)] stored_cells[OF V pm(2) tm(2)] int_linear_single
    by (simp add: blend_def Let_def)
  show ?thesis
    unfolding get_vals_def pb tb T Let_def
    by (simp only: prod.case sum.case f bindE_Inr six_def)
qed

lemma valid_init:
  assumes V: "valid_table tab"
    and acc: "\<And>z. array_shape (length (np_unique (map rT tab))) (length (np_unique (map rP tab))) z
                \<Longrightarrow> \<exists>f. ip (np_unique (map rP tab)) (np_unique (map rT tab)) z = Inr f"
  shows "\<exists>self. init ip tab = Inr self"
proof -
  let ?ps = "np_unique (map rP tab)" and ?ts = "np_unique (map rT tab)"
  from V have ne: "tab \<noteq> []" by (simp add: valid_table_def)
  from valid_axes_nonempty[OF V] have pos: "0 < length ?ps" "0 < length ?ts" by auto
  have "length ?ps * length ?ts \<le> length tab" using valid_length[OF V] by simp
  then have "\<forall>i<length ?ps. block_fits (length tab) (length ?ts) i"
    using all_blocks_fit[OF pos, of "length tab"] by blast
  from init_succeeds[of tab ip, OF ne this] acc show ?thesis by blast
qed

lemma stub_accepts: "\<exists>f. stub_interp2d xs ys z = Inr f"
  by (simp add: stub_interp2d_def)

lemma init_minmax:
  assumes "init ip tab = Inr self"
  shows "p_min self = hd (pres self)" "p_max self = last (pres self)"
        "t_min self = hd (temp self)" "t_max self = last (temp self)"
proof -
  have ne: "tab \<noteq> []" using assms init_empty[of ip] by auto
  note a = init_attrs(3,4)[OF assms] and b = init_attrs(6-9)[OF assms]
  have mn: "Min (set (np_unique xs)) = hd (np_unique xs)" if "xs \<noteq> []" for xs
    using that by (intro Min_set_sorted[OF strict_np_unique]) simp
  have mx: "Max (set (np_unique xs)) = last (np_unique xs)" if "xs \<noteq> []" for xs
    using that by (intro Max_set_sorted[OF strict_np_unique]) simp
  have m: "map rP tab \<noteq> []" "map rT tab \<noteq> []" using ne by simp_all
  show "p_min self = hd (pres self)" "p_max self = last (pres self)"
        "t_min self = hd (temp self)" "t_max self = last (temp self)"
    unfolding b a by (rule mn[OF m(1)] mx[OF m(1)] mn[OF m(2)] mx[OF m(2)])+
qed

lemma pressure_bounds_find:
  assumes "init ip tab = Inr self"
  shows "pressure_bounds self p =
           find_bounds (column tab 0) (length (temp self)) PressureBelow PressureAbove p"
  using init_attrs[OF assms] by (simp add: pressure_bounds_def)

lemma temperature_bounds_find:
  assumes "init ip tab = Inr self"
  shows "temperature_bounds self t = find_bounds (column tab 1) 1 TemperatureBelow TemperatureAbove t"
  using init_attrs[OF assms] by (simp add: temperature_bounds_def)

lemma strict_nth_less_iff:
  assumes "sorted_wrt (<) (xs::real list)" "i < length xs" "j < length xs"
  shows "xs ! i < xs ! j \<longleftrightarrow> i < j" "xs ! i \<le> xs ! j \<longleftrightarrow> i \<le> j"
proof -
  have m: "\<And>a b. a < b \<Longrightarrow> b < length xs \<Longrightarrow> xs ! a < xs ! b"
    using assms(1) by (simp add: sorted_wrt_nth_less)
  show "xs ! i < xs ! j \<longleftrightarrow> i < j"
    using m[of i j] m[of j i] assms(2,3) by (cases i j rule: linorder_cases) auto
  show "xs ! i \<le> xs ! j \<longleftrightarrow> i \<le> j"
    using m[of i j] m[of j i] assms(2,3) by (cases i j rule: linorder_cases) auto
qed

lemma hd_last_mem: "xs \<noteq> [] \<Longrightarrow> hd xs \<in> set xs \<and> last xs \<in> set xs"
  by simp

lemma find_bounds_total:
  assumes L: "laid_out col xs s"
  shows "\<exists>m l u. find_bounds col s ml mh v = (m, Inr (l, u)) \<and> l \<in> set xs \<and> u \<in> set xs"
proof -
  from L have ne: "xs \<noteq> []" by (simp add: laid_out_def)
  consider "v < hd xs" | "last xs < v" | "hd xs \<le> v" "v \<le> last xs" by linarith
  then show ?thesis
  proof cases
    case 1
    from find_bounds_below[OF L 1] ne show ?thesis by simp
  next
    case 2
    from find_bounds_above[OF L 2] ne show ?thesis by simp
  next
    case 3
    from find_bounds_inside[OF L 3, of ml mh]
    obtain l u where f: "find_bounds col s ml mh v = ([], Inr (l, u))"
      and c: "(v = hd xs \<and> l = last xs \<and> u = hd xs) \<or>
            (\<exists>a. Suc a < length xs \<and> l = xs ! a \<and> u = xs ! Suc a \<and> l < v \<and> v \<le> u)" by blast
    from c have "l \<in> set xs \<and> u \<in> set xs" using ne by (auto simp: nth_mem)
    with f show ?thesis by blast
  qed
qed

lemma find_bounds_node:
  assumes L: "laid_out col xs s" and x: "x \<in> set xs"
  shows "\<exists>l\<in>set xs. find_bounds col s ml mh x = ([], Inr (l, x))"
proof -
  from L have ne: "xs \<noteq> []" and st: "sorted_wrt (<) xs" by (simp_all add: laid_out_def)
  from x obtain j where j: "j < length xs" "xs ! j = x" by (auto simp: in_set_conv_nth)
  have "hd xs \<le> x"
    using Min_le[of "set xs" x] x ne st by (simp add: Min_set_sorted)
  moreover have "x \<le> last xs"
    using Max_ge[of "set xs" x] x ne st by (simp add: Max_set_sorted)
  ultimately obtain l u where f: "find_bounds col s ml mh x = ([], Inr (l, u))"
    and c: "(x = hd xs \<and> l = last xs \<and> u = hd xs) \<or>
            (\<exists>a. Suc a < length xs \<and> l = xs ! a \<and> u = xs ! Suc a \<and> l < x \<and> x \<le> u)"
    using find_bounds_inside[OF L, of x ml mh] by blast
  from c show ?thesis
  proof
    assume "x = hd xs \<and> l = last xs \<and> u = hd xs"
    then show ?thesis using f ne by simp
  next
    assume "\<exists>a. Suc a < length xs \<and> l = xs ! a \<and> u = xs ! Suc a \<and> l < x \<and> x \<le> u"
    then obtain a where a: "Suc a < length xs" "l = xs ! a" "u = xs ! Suc a" "l < x" "x \<le> u" by blast
    have "a < j" using strict_nth_less_iff(1)[OF st, of a j] a j by simp
    moreover have "j \<le> Suc a" using strict_nth_less_iff(2)[OF st, of j "Suc a"] a j by simp
    ultimately have "j = Suc a" by simp
    then have "u = x" using a j by simp
    then show ?thesis using f a by auto
  qed
qed

lemma find_bounds_nearest:
  assumes L: "laid_out col xs s" and lo: "hd xs < v" and hi: "v < last xs" and N: "nearest xs v k"
  shows "find_bounds col s ml mh v = ([], Inr (spec_bounds xs v k))"
    and "xs ! k < v \<Longrightarrow> k + 1 < length xs" and "\<not> xs ! k < v \<Longrightarrow> 0 < k"
proof -
  from L have ne: "xs \<noteq> []" and st: "sorted_wrt (<) xs" by (simp_all add: laid_out_def)
  from N have k: "k < length xs" and near: "\<And>j. j < length xs \<Longrightarrow> \<bar>xs ! k - v\<bar> \<le> \<bar>xs ! j - v\<bar>"
    by (auto simp: nearest_def)
  from find_bounds_inside[OF L, of v ml mh] lo hi
  obtain l u a where f: "find_bounds col s ml mh v = ([], Inr (l, u))"
    and a: "Suc a < length xs" "l = xs ! a" "u = xs ! Suc a" "l < v" "v \<le> u"
    by auto
  have res: "spec_bounds xs v k = (l, u) \<and> (xs ! k < v \<longrightarrow> k + 1 < length xs) \<and> (\<not> xs ! k < v \<longrightarrow> 0 < k)"
  proof (cases "xs ! k < v")
    case True
    then have "xs ! k < xs ! Suc a" using a by simp
    then have "k < Suc a" using strict_nth_less_iff(1)[OF st k a(1)] by simp
    moreover have "xs ! a \<le> xs ! k" using near[of a] a True by simp
    then have "a \<le> k" using strict_nth_less_iff(2)[OF st _ k, of a] a by simp
    ultimately have "k = a" by simp
    then show ?thesis using True a by (simp add: spec_bounds_def)
  next
    case False
    then have "xs ! a < xs ! k" using a by simp
    then have "a < k" using strict_nth_less_iff(1)[OF st _ k, of a] a by simp
    moreover have "xs ! k \<le> xs ! Suc a" using near[of "Suc a"] a False by simp
    then have "k \<le> Suc a" using strict_nth_less_iff(2)[OF st k a(1)] by simp
    ultimately have "k = Suc a" by simp
    then show ?thesis using False a by (simp add: spec_bounds_def)
  qed
  show "find_bounds col s ml mh v = ([], Inr (spec_bounds xs v k))" using f res by simp
  show "xs ! k < v \<Longrightarrow> k + 1 < length xs" using res by simp
  show "\<not> xs ! k < v \<Longrightarrow> 0 < k" using res by simp
qed

lemma blend_p_node: "blend tab l x tlo thi x tv c = blend tab x x tlo thi pv tv c"
  by (simp add: blend_def norm_vals_def Let_def)

lemma blend_t_node: "blend tab pl pu l y pv y c = blend tab pl pu y y pv tv c"
  by (simp add: blend_def norm_vals_def Let_def)

lemma blend_node: "blend tab pl p tlo t p t c = stored tab p t c"
  by (simp add: blend_def norm_vals_def Let_def)

lemma find_bounds_entry:
  assumes v: "v \<in> set col" and s: "s \<le> length col"
  shows "\<exists>l\<in>set col. find_bounds col s ml mh v = ([], Inr (l, v))"
proof -
  from v have cne: "col \<noteq> []" by auto
  have mn: "np_min col = Inr (Min (set col))" and mx: "np_max col = Inr (Max (set col))"
    using cne by (simp_all add: np_min_def np_max_def)
  have "Min (set col) \<le> v" using v by (intro Min_le) auto
  then have lo: "\<not> v < Min (set col)" by simp
  have "v \<le> Max (set col)" using v by (intro Max_ge) auto
  then have hi: "\<not> Max (set col) < v" by simp
  define dist where "dist = map (\<lambda>x. \<bar>x - v\<bar>) col"
  have dne: "dist \<noteq> []" using cne by (simp add: dist_def)
  have "(0::real) \<in> set dist" using v by (force simp: dist_def)
  moreover have "\<forall>d\<in>set dist. 0 \<le> d" by (auto simp: dist_def)
  ultimately have d0: "Min (set dist) = 0" by (intro Min_eqI) auto
  have nm: "np_min dist = Inr 0" using dne d0 by (simp add: np_min_def)
  from \<open>0 \<in> set dist\<close> obtain j where "j < length dist" "dist ! j = 0"
    by (auto simp: in_set_conv_nth)
  then have "np_where (\<lambda>d. d = 0) dist \<noteq> []" by (intro np_where_nonempty[of j]) auto
  then obtain i0 rest where W: "np_where (\<lambda>d. d = 0) dist = i0 # rest"
    by (auto simp: neq_Nil_conv)
  from np_where_Cons[OF W] have i0: "i0 < length col" and di0: "dist ! i0 = 0"
    by (auto simp: dist_def)
  then have c0: "col ! i0 = v" by (simp add: dist_def)
  have here: "py_index col (int i0) = Inr v" using i0 c0 by (simp add: py_index_def)
  obtain l where l: "py_index col (int i0 - int s) = Inr l" "l \<in> set col"
  proof (cases "s \<le> i0")
    case True
    then have "int i0 - int s = int (i0 - s)" by simp
    moreover have "i0 - s < length col" using i0 by simp
    ultimately have "py_index col (int i0 - int s) = Inr (col ! (i0 - s))"
      by (simp add: py_index_def del: of_nat_diff)
    with \<open>i0 - s < length col\<close> that show ?thesis by (metis nth_mem)
  next
    case False
    then have neg: "int i0 - int s < 0" by simp
    have ge: "- int (length col) \<le> int i0 - int s" using s by simp
    have "nat (int (length col) + (int i0 - int s)) < length col" using neg ge cne by auto
    moreover have "py_index col (int i0 - int s)
        = Inr (col ! nat (int (length col) + (int i0 - int s)))"
      using neg ge by (simp add: py_index_def)
    ultimately show ?thesis using that by (metis nth_mem)
  qed
  have "find_bounds col s ml mh v = ([], Inr (l, v))"
    using lo hi by (simp add: find_bounds_def mn mx dist_def[symmetric] nm W here l(1))
  with l(2) show ?thesis by blast
qed

lemma get_vals_node:
  assumes V: "valid_table tab" and I: "init ip tab = Inr self" and r: "r \<in> set tab"
  shows "get_vals self (rP r) (rT r) = ([], Inr (six (cell r)))"
proof -
  have T: "temp self = np_unique (map rT tab)" using init_attrs[OF I] by simp
  from valid_axes_nonempty[OF V] have "0 < length (np_unique (map rP tab))" by simp
  then have "1 * length (np_unique (map rT tab))
      \<le> length (np_unique (map rP tab)) * length (np_unique (map rT tab))"
    by (intro mult_le_mono1) linarith
  then have s1: "length (temp self) \<le> length (map rP tab)"
    using valid_length[OF V] T by simp
  have s2: "1 \<le> length (map rT tab)" using r by (cases tab) auto
  from r have m: "rP r \<in> set (map rP tab)" "rT r \<in> set (map rT tab)" by simp_all
  from find_bounds_entry[OF m(1) s1, of PressureBelow PressureAbove]
    find_bounds_entry[OF m(2) s2, of TemperatureBelow TemperatureAbove]
  obtain pl tlo where pl: "pl \<in> set (map rP tab)" "pressure_bounds self (rP r) = ([], Inr (pl, rP r))"
    and tlo: "tlo \<in> set (map rT tab)" "temperature_bounds self (rT r) = ([], Inr (tlo, rT r))"
    unfolding pressure_bounds_find[OF I] temperature_bounds_find[OF I] column_0 column_one by blast
  have "get_vals self (rP r) (rT r) = ([] @ [], Inr (six (blend tab pl (rP r) tlo (rT r) (rP r) (rT r))))"
    using pl tlo m by (intro get_vals_eval[OF V I]) simp_all
  then show ?thesis by (simp add: six_def blend_node stored_row[OF V r])
qed

subsection \<open>Clamping\<close>

lemma find_bounds_msgs:
  assumes L: "laid_out col xs s"
  shows "fst (find_bounds col s ml mh v) = (if v < hd xs then [ml v] else if last xs < v then [mh v] else [])"
proof -
  consider "v < hd xs" | "last xs < v" "\<not> v < hd xs" | "hd xs \<le> v" "v \<le> last xs" by linarith
  then show ?thesis
  proof cases
    case 1
    from find_bounds_below[OF L 1] 1 show ?thesis by simp
  next
    case 2
    from find_bounds_above[OF L 2(1)] 2 show ?thesis by simp
  next
    case 3
    from find_bounds_inside[OF L 3, of ml mh] 3 show ?thesis by auto
  qed
qed

lemma six_cong: "(\<And>c. f c = g c) \<Longrightarrow> six f = six g"
  by (simp add: six_def)

lemma clamp_simps:
  fixes lo :: real
  assumes "lo \<le> hi"
  shows "v < lo \<Longrightarrow> max lo (min hi v) = lo" "hi < v \<Longrightarrow> max lo (min hi v) = hi"
    "lo \<le> v \<Longrightarrow> v \<le> hi \<Longrightarrow> max lo (min hi v) = v"
  using assms by auto

lemma get_vals_clamp_p:
  assumes Asc: "ascending_table tab" and I: "init ip tab = Inr self"
  shows "snd (get_vals self p t) = snd (get_vals self (max (hd (pres self)) (min (last (pres self)) p)) t)"
proof -
  let ?ps = "np_unique (map rP tab)" and ?ts = "np_unique (map rT tab)"
  have A: "temp self = ?ts" "pres self = ?ps" using init_attrs[OF I] by simp_all
  note V = ascending_valid[OF Asc]
  note LP = laid_out_pressure[OF Asc] and LT = laid_out_temperature[OF V]
  from LP have ne: "?ps \<noteq> []" and st: "sorted_wrt (<) ?ps" by (simp_all add: laid_out_def)
  have hl: "hd ?ps \<le> last ?ps" using hd_le_last[OF st ne] .
  have hm: "hd ?ps \<in> set (map rP tab)" "last ?ps \<in> set (map rP tab)" using hd_last_mem[OF ne] by simp_all
  from find_bounds_total[OF LT, of TemperatureBelow TemperatureAbove t]
  obtain m2 tlo thi where tb: "temperature_bounds self t = (m2, Inr (tlo, thi))"
    and tm: "tlo \<in> set (map rT tab)" "thi \<in> set (map rT tab)"
    unfolding temperature_bounds_find[OF I] by auto
  have edge: "snd (get_vals self p t) = snd (get_vals self x t)"
    if pb: "pressure_bounds self p = (m, Inr (x, x))" and x: "x \<in> set (map rP tab)" for m x
  proof -
    from x have "x \<in> set ?ps" by simp
    from find_bounds_node[OF LP this, of PressureBelow PressureAbove]
    obtain l where l: "l \<in> set (map rP tab)" "pressure_bounds self x = ([], Inr (l, x))"
      unfolding pressure_bounds_find[OF I] A by auto
    have "get_vals self p t = (m @ m2, Inr (six (blend tab x x tlo thi p t)))"
      by (rule get_vals_eval[OF V I pb x x tb tm])
    moreover have "get_vals self x t = ([] @ m2, Inr (six (blend tab l x tlo thi x t)))"
      by (rule get_vals_eval[OF V I l(2) l(1) x tb tm])
    moreover have "six (blend tab l x tlo thi x t) = six (blend tab x x tlo thi p t)"
      by (rule six_cong) (rule blend_p_node)
    ultimately show ?thesis by simp
  qed
  consider "p < hd ?ps" | "last ?ps < p" | "hd ?ps \<le> p" "p \<le> last ?ps" by linarith
  then show ?thesis
  proof cases
    case 1
    have "pressure_bounds self p = ([PressureBelow p], Inr (hd ?ps, hd ?ps))"
      unfolding pressure_bounds_find[OF I] A by (rule find_bounds_below[OF LP 1])
    from edge[OF this hm(1)] show ?thesis unfolding A using clamp_simps(1)[OF hl 1] by simp
  next
    case 2
    have "pressure_bounds self p = ([PressureAbove p], Inr (last ?ps, last ?ps))"
      unfolding pressure_bounds_find[OF I] A by (rule find_bounds_above[OF LP 2])
    from edge[OF this hm(2)] show ?thesis unfolding A using clamp_simps(2)[OF hl 2] by simp
  next
    case 3
    show ?thesis unfolding A using clamp_simps(3)[OF hl 3] by simp
  qed
qed

lemma get_vals_clamp_t:
  assumes Asc: "ascending_table tab" and I: "init ip tab = Inr self"
  shows "snd (get_vals self p t) = snd (get_vals self p (max (hd (temp self)) (min (last (temp self)) t)))"
proof -
  let ?ps = "np_unique (map rP tab)" and ?ts = "np_unique (map rT tab)"
  have A: "temp self = ?ts" "pres self = ?ps" using init_attrs[OF I] by simp_all
  note V = ascending_valid[OF Asc]
  note LP = laid_out_pressure[OF Asc] and LT = laid_out_temperature[OF V]
  from LT have ne: "?ts \<noteq> []" and st: "sorted_wrt (<) ?ts" by (simp_all add: laid_out_def)
  have hl: "hd ?ts \<le> last ?ts" using hd_le_last[OF st ne] .
  have hm: "hd ?ts \<in> set (map rT tab)" "last ?ts \<in> set (map rT tab)" using hd_last_mem[OF ne] by simp_all
  from find_bounds_total[OF LP, of PressureBelow PressureAbove p]
  obtain m1 pl pu where pb: "pressure_bounds self p = (m1, Inr (pl, pu))"
    and pm: "pl \<in> set (map rP tab)" "pu \<in> set (map rP tab)"
    unfolding pressure_bounds_find[OF I] A by auto
  have edge: "snd (get_vals self p t) = snd (get_vals self p y)"
    if tb: "temperature_bounds self t = (m, Inr (y, y))" and y: "y \<in> set (map rT tab)" for m y
  proof -
    from y have "y \<in> set ?ts" by simp
    from find_bounds_node[OF LT this, of TemperatureBelow TemperatureAbove]
    obtain l where l: "l \<in> set (map rT tab)" "temperature_bounds self y = ([], Inr (l, y))"
      unfolding temperature_bounds_find[OF I] by auto
    have "get_vals self p t = (m1 @ m, Inr (six (blend tab pl pu y y p t)))"
      by (rule get_vals_eval[OF V I pb pm tb y y])
    moreover have "get_vals self p y = (m1 @ [], Inr (six (blend tab pl pu l y p y)))"
      by (rule get_vals_eval[OF V I pb pm l(2) l(1) y])
    moreover have "six (blend tab pl pu l y p y) = six (blend tab pl pu y y p t)"
      by (rule six_cong) (rule blend_t_node)
    ultimately show ?thesis by simp
  qed
  consider "t < hd ?ts" | "last ?ts < t" | "hd ?ts \<le> t" "t \<le> last ?ts" by linarith
  then show ?thesis
  proof cases
    case 1
    have "temperature_bounds self t = ([TemperatureBelow t], Inr (hd ?ts, hd ?ts))"
      unfolding temperature_bounds_find[OF I] by (rule find_bounds_below[OF LT 1])
    from edge[OF this hm(1)] show ?thesis unfolding A using clamp_simps(1)[OF hl 1] by simp
  next
    case 2
    have "temperature_bounds self t = ([TemperatureAbove t], Inr (last ?ts, last ?ts))"
      unfolding temperature_bounds_find[OF I] by (rule find_bounds_above[OF LT 2])
    from edge[OF this hm(2)] show ?thesis unfolding A using clamp_simps(2)[OF hl 2] by simp
  next
    case 3
    show ?thesis unfolding A using clamp_simps(3)[OF hl 3] by simp
  qed
qed

lemma get_vals_total:
  assumes Asc: "ascending_table tab" and I: "init ip tab = Inr self"
  shows "\<exists>f. get_vals self p t =
           ((if p < p_min self then [PressureBelow p] else if p_max self < p then [PressureAbove p] else []) @
            (if t < t_min self then [TemperatureBelow t] else if t_max self < t then [TemperatureAbove t] else []),
            Inr (six f))"
proof -
  let ?ps = "np_unique (map rP tab)" and ?ts = "np_unique (map rT tab)"
  have A: "temp self = ?ts" "pres self = ?ps" using init_attrs[OF I] by simp_all
  note V = ascending_valid[OF Asc]
  note LP = laid_out_pressure[OF Asc] and LT = laid_out_temperature[OF V]
  from find_bounds_total[OF LP, of PressureBelow PressureAbove p]
  obtain m1 pl pu where pb: "pressure_bounds self p = (m1, Inr (pl, pu))"
    and pm: "pl \<in> set (map rP tab)" "pu \<in> set (map rP tab)"
    unfolding pressure_bounds_find[OF I] A by auto
  from find_bounds_total[OF LT, of TemperatureBelow TemperatureAbove t]
  obtain m2 tlo thi where tb: "temperature_bounds self t = (m2, Inr (tlo, thi))"
    and tm: "tlo \<in> set (map rT tab)" "thi \<in> set (map rT tab)"
    unfolding temperature_bounds_find[OF I] by auto
  have "m1 = (if p < p_min self then [PressureBelow p] else if p_max self < p then [PressureAbove p] else [])"
    using find_bounds_msgs[OF LP, of PressureBelow PressureAbove p] pb
    unfolding pressure_bounds_find[OF I] A init_minmax[OF I] by simp
  moreover have "m2 = (if t < t_min self then [TemperatureBelow t] else if t_max self < t then [TemperatureAbove t] else [])"
    using find_bounds_msgs[OF LT, of TemperatureBelow TemperatureAbove t] tb
    unfolding temperature_bounds_find[OF I] A init_minmax[OF I] by simp
  ultimately show ?thesis using get_vals_eval[OF V I pb pm tb tm] by blast
qed

subsection \<open>Composition interpolation\<close>

lemma interp1d_at_line:
  assumes "c1 \<noteq> c2" "length xs = length ys"
  shows "interp1d_at c1 c2 xs ys c = map2 (\<lambda>x y. x + (y - x) * (c - c1) / (c2 - c1)) xs ys"
proof (cases "c1 \<le> c2")
  case True
  then show ?thesis by (simp add: interp1d_at_def algebra_simps)
next
  case False
  have sw: "map2 (\<lambda>lo hi. (hi - lo) / (c1 - c2) * (c - c2) + lo) ys xs
          = map2 (\<lambda>x y. x + (y - x) * (c - c1) / (c2 - c1)) xs ys"
  proof (rule nth_equalityI)
    show "length (map2 (\<lambda>lo hi. (hi - lo) / (c1 - c2) * (c - c2) + lo) ys xs)
        = length (map2 (\<lambda>x y. x + (y - x) * (c - c1) / (c2 - c1)) xs ys)" using assms by simp
    fix i assume "i < length (map2 (\<lambda>lo hi. (hi - lo) / (c1 - c2) * (c - c2) + lo) ys xs)"
    then have i: "i < length xs" "i < length ys" using assms by simp_all
    have "(xs ! i - ys ! i) / (c1 - c2) * (c - c2) + ys ! i
        = xs ! i + (ys ! i - xs ! i) * (c - c1) / (c2 - c1)"
      using assms(1) by (simp add: field_simps)
    then show "map2 (\<lambda>lo hi. (hi - lo) / (c1 - c2) * (c - c2) + lo) ys xs ! i
        = map2 (\<lambda>x y. x + (y - x) * (c - c1) / (c2 - c1)) xs ys ! i" using i by simp
  qed
  have "interp1d_at c1 c2 xs ys c = map2 (\<lambda>lo hi. (hi - lo) / (c1 - c2) * (c - c2) + lo) ys xs"
    unfolding interp1d_at_def Let_def using False by (simp only: if_False prod.case)
  then show ?thesis by (simp only: sw)
qed

lemma map2_fst: "length xs = length ys \<Longrightarrow> map2 (\<lambda>x y. x) xs ys = xs"
  by (induction xs ys rule: list_induct2) auto

lemma map2_snd: "length xs = length ys \<Longrightarrow> map2 (\<lambda>x y. y) xs ys = ys"
  by (induction xs ys rule: list_induct2) auto

subsection \<open>The scenario table\<close>

lemma scenario_pres: "np_unique (map rP scenario) = [1, 2, 3]"
  by (simp add: scenario_def sample_row_def np_unique_def)

lemma scenario_temp: "np_unique (map rT scenario) = [100, 200, 300]"
  by (simp add: scenario_def sample_row_def np_unique_def)

lemma scenario_blocks: "remdups (map rP scenario) = [1, 2, 3]"
  by (simp add: scenario_def sample_row_def)

lemma valid_scenario: "valid_table scenario"
  unfolding valid_table_def column_0 column_one scenario_blocks scenario_temp
  by (simp add: scenario_def sample_row_def nodes_def)

lemma ascending_scenario: "ascending_table scenario"
  unfolding ascending_table_def column_0 scenario_blocks using valid_scenario by simp

lemma descending_pres: "np_unique (map rP descending) = [1, 2, 3]"
  by (simp add: descending_def sample_row_def np_unique_def)

lemma descending_temp: "np_unique (map rT descending) = [100, 200, 300]"
  by (simp add: descending_def sample_row_def np_unique_def)

lemma descending_blocks: "remdups (map rP descending) = [3, 2, 1]"
  by (simp add: descending_def sample_row_def)

lemma valid_descending: "valid_table descending"
  unfolding valid_table_def column_0 column_one descending_blocks descending_temp
  by (simp add: descending_def sample_row_def nodes_def)

lemma not_ascending_descending: "\<not> ascending_table descending"
  unfolding ascending_table_def column_0 descending_blocks by simp

lemma nearest_scenario:
  "nearest [1, 2, 3] 1.5 0" "nearest [100, 200, 300] 200 1" "nearest [100, 200, 300] 150 0"
  by (simp_all add: nearest_def less_Suc_eq numeral_3_eq_3)

lemma stored_vp:
  assumes V: "valid_table tab" and p: "p \<in> set (map rP tab)" and t: "t \<in> set (map rT tab)"
    and v: "\<forall>r\<in>set tab. rP r = p \<and> rT r = t \<longrightarrow> rVp r = x"
  shows "stored tab p t 2 = x"
proof -
  from node_row[OF V p t] obtain r where r: "r \<in> set tab" "rP r = p" "rT r = t" by blast
  from stored_row[OF V r(1), of 2] r v show ?thesis by (simp add: cell_def)
qed

lemma blend_edge_node: "blend tab x x l t pv t c = stored tab x t c"
  by (simp add: blend_def norm_vals_def Let_def)

lemma get_vals_below_node:
  assumes Asc: "ascending_table tab" and I: "init ip tab = Inr self" and r: "r \<in> set tab"
    and e: "rP r = p_min self" and p: "p < p_min self"
  shows "get_vals self p (rT r) = ([PressureBelow p], Inr (six (cell r)))"
proof -
  let ?ps = "np_unique (map rP tab)" and ?ts = "np_unique (map rT tab)"
  have A: "temp self = ?ts" "pres self = ?ps" using init_attrs[OF I] by simp_all
  note V = ascending_valid[OF Asc]
  note LP = laid_out_pressure[OF Asc] and LT = laid_out_temperature[OF V]
  have h: "p_min self = hd ?ps" using init_minmax(1)[OF I] A by simp
  have pb: "pressure_bounds self p = ([PressureBelow p], Inr (rP r, rP r))"
    unfolding pressure_bounds_find[OF I] A e h using find_bounds_below[OF LP] p h by simp
  from r have "rT r \<in> set ?ts" by simp
  from find_bounds_node[OF LT this, of TemperatureBelow TemperatureAbove]
  obtain l where l: "l \<in> set (map rT tab)" "temperature_bounds self (rT r) = ([], Inr (l, rT r))"
    unfolding temperature_bounds_find[OF I] by auto
  have "get_vals self p (rT r) = ([PressureBelow p] @ [], Inr (six (blend tab (rP r) (rP r) l (rT r) p (rT r))))"
    using r l by (intro get_vals_eval[OF V I pb _ _ l(2)]) simp_all
  then show ?thesis by (simp add: blend_edge_node stored_row[OF V r] six_def)
qed

lemma truncated_axes:
  "np_unique (column truncated 0) = [1, 2, 3]" "np_unique (column truncated 1) = [100, 200, 300]"
  by (simp_all add: truncated_def scenario_def sample_row_def np_unique_def)

lemma truncated_length: "length truncated = 7" "truncated \<noteq> []"
  by (simp_all add: truncated_def scenario_def)

lemma scenario_init: "\<exists>self. init stub_interp2d scenario = Inr self"
  by (rule valid_init[of scenario stub_interp2d, OF valid_scenario]) (rule stub_accepts)

lemma truncated_init: "\<exists>self. init stub_interp2d truncated = Inr self"
proof -
  have ax: "np_unique (map rP truncated) = [1, 2, 3]" "np_unique (map rT truncated) = [100, 200, 300]"
    using truncated_axes by simp_all
  have "length truncated = (length (np_unique (map rP truncated)) - 1) * length (np_unique (map rT truncated)) + 1"
    unfolding ax truncated_length by simp
  then have "\<forall>i<length (np_unique (map rP truncated)).
      block_fits (length truncated) (length (np_unique (map rT truncated))) i"
    using all_blocks_fit[of "length (np_unique (map rP truncated))" "length (np_unique (map rT truncated))"
        "length truncated"] unfolding ax by simp
  from init_succeeds[of truncated stub_interp2d, OF truncated_length(2) this] stub_accepts
  show ?thesis by blast
qed

subsection \<open>The loop of interp_points and the field dictionary\<close>

lemma points_loop_ok:
  assumes "length ps \<le> length ts"
  shows "length out = length ps \<Longrightarrow> k \<le> length ps \<Longrightarrow>
     points_loop grid ps ts [k..<length ps] out =
       Inr (take k out @ map (\<lambda>i. grid (ps ! i) (ts ! i)) [k..<length ps])"
proof (induction "length ps - k" arbitrary: k out)
  case 0
  then show ?case by simp
next
  case (Suc d)
  then have k: "k < length ps" by simp
  then have upt: "[k..<length ps] = k # [Suc k..<length ps]" by (simp add: upt_conv_Cons)
  have d: "d = length ps - Suc k" using Suc.hyps(2) by simp
  have len: "length (out[k := grid (ps ! k) (ts ! k)]) = length ps" using Suc.prems by simp
  have tk: "take (Suc k) (out[k := grid (ps ! k) (ts ! k)]) = take k out @ [grid (ps ! k) (ts ! k)]"
    using k Suc.prems(1) by (simp add: take_Suc_conv_app_nth)
  have "points_loop grid ps ts [k..<length ps] out =
        points_loop grid ps ts [Suc k..<length ps] (out[k := grid (ps ! k) (ts ! k)])"
    using k assms by (simp add: upt py_getitem_def)
  also have "\<dots> = Inr (take (Suc k) (out[k := grid (ps ! k) (ts ! k)]) @
                      map (\<lambda>i. grid (ps ! i) (ts ! i)) [Suc k..<length ps])"
    using Suc.hyps(1)[OF d len] k by simp
  finally show ?case by (simp add: tk upt)
qed

lemma points_loop_short:
  assumes "length ts < length ps"
  shows "k \<le> length ts \<Longrightarrow> points_loop grid ps ts [k..<length ps] out = Inl IndexError"
proof (induction "length ts - k" arbitrary: k out)
  case 0
  then have "k = length ts" by simp
  then have "[k..<length ps] = k # [Suc k..<length ps]" using assms by (simp add: upt_conv_Cons)
  then show ?case using \<open>k = length ts\<close> assms by (simp add: py_getitem_def)
next
  case (Suc d)
  then have k: "k < length ts" by simp
  then have upt: "[k..<length ps] = k # [Suc k..<length ps]" using assms by (simp add: upt_conv_Cons)
  have d: "d = length ts - Suc k" using Suc.hyps(2) by simp
  have "points_loop grid ps ts [k..<length ps] out =
        points_loop grid ps ts [Suc k..<length ps] (out[k := grid (ps ! k) (ts ! k)])"
    using k assms by (simp add: upt py_getitem_def)
  also have "\<dots> = Inl IndexError" using Suc.hyps(1)[OF d] k by simp
  finally show ?case .
qed

lemma map2_nth_upt:
  "length ps \<le> length ts \<Longrightarrow> map (\<lambda>i. f (ps ! i) (ts ! i)) [0..<length ps] = map2 f ps ts"
  by (rule nth_equalityI) simp_all

lemma points_loop_result:
  "points_loop grid ps ts [0..<length ps] (replicate (length ps) 0) =
     (if length ps \<le> length ts then Inr (map2 grid ps ts) else Inl IndexError)"
proof (cases "length ps \<le> length ts")
  case True
  from points_loop_ok[OF True, of "replicate (length ps) 0" 0 grid] True
  show ?thesis by (simp add: map2_nth_upt)
next
  case False
  then have "length ts < length ps" by simp
  from points_loop_short[OF this, of 0] False show ?thesis by simp
qed

lemma init_fields:
  assumes "init ip tab = Inr self"
  shows "(\<exists>entry. fields_getitem self key = Inr entry) \<longleftrightarrow> key \<in> set registry"
    and "fields_getitem self key = Inl KeyError \<longleftrightarrow> key \<notin> set registry"
proof -
  have "map_of (fields_dict self) key = None \<longleftrightarrow> key \<notin> set (map fst (fields_dict self))"
    by (simp add: map_of_eq_None_iff)
  then have n: "map_of (fields_dict self) key = None \<longleftrightarrow> key \<notin> set registry"
    unfolding init_attrs(5)[OF assms] registry_def by simp
  show "(\<exists>entry. fields_getitem self key = Inr entry) \<longleftrightarrow> key \<in> set registry"
    using n by (auto simp: fields_getitem_def split: option.splits)
  show "fields_getitem self key = Inl KeyError \<longleftrightarrow> key \<notin> set registry"
    using n by (auto simp: fields_getitem_def split: option.splits)
qed




subsection \<open>The table in blocks 3, 2, 1\<close>

lemma descending_column: "map rP descending = [3, 3, 3, 2, 2, 2, 1, 1, 1]"
  by (simp add: descending_def sample_row_def)

lemma upt_nine: "[0..<9] = [0, 1, 2, 3, 4, 5, 6, 7, 8]"
  by (simp add: upt_rec)

lemma descending_bounds_low:
  "find_bounds (map rP descending) 3 ml mh 1.2 = ([], Inl IndexError)"
  unfolding descending_column
  by (simp add: find_bounds_def np_min_def np_max_def np_where_def py_index_def upt_nine)

lemma descending_bounds_mid:
  "find_bounds (map rP descending) 3 ml mh 1.5 = ([], Inr (3, 2))"
  unfolding descending_column
  by (simp add: find_bounds_def np_min_def np_max_def np_where_def py_index_def upt_nine)

lemma descending_init: "\<exists>self. init stub_interp2d descending = Inr self"
  by (rule valid_init[of descending stub_interp2d, OF valid_descending]) (rule stub_accepts)

lemma descending_attrs:
  assumes "init ip descending = Inr self"
  shows "pres self = [1, 2, 3]" "temp self = [100, 200, 300]"
    "p_min self = 1" "p_max self = 3" "t_min self = 100" "t_max self = 300"
proof -
  show a: "pres self = [1, 2, 3]" "temp self = [100, 200, 300]"
    using init_attrs[OF assms] by (simp_all add: descending_pres descending_temp)
  show "p_min self = 1" "p_max self = 3" "t_min self = 100" "t_max self = 300"
    using init_minmax[OF assms] by (simp_all add: a)
qed

lemma scenario_attrs:
  assumes "init ip scenario = Inr self"
  shows "pres self = [1, 2, 3]" "temp self = [100, 200, 300]"
    "p_min self = 1" "p_max self = 3" "t_min self = 100" "t_max self = 300"
proof -
  show a: "pres self = [1, 2, 3]" "temp self = [100, 200, 300]"
    using init_attrs[OF assms] by (simp_all add: scenario_pres scenario_temp)
  show "p_min self = 1" "p_max self = 3" "t_min self = 100" "t_max self = 300"
    using init_minmax[OF assms] by (simp_all add: a)
qed

section \<open>The claims\<close>

text \<open>
  C1. On a valid table, with its pressure blocks in any order, for any object that the
  construction returned, the point query \<^verbatim>\<open>get_vals\<close> at the pressure and temperature
  of any line of the table returns the six stored values of that line, with nothing
  printed. This covers the nodes of the first block and of the lowest temperature, where
  the index of the previous entry is negative and wraps to the end of the table.
  (\<^verbatim>\<open>norm_vals\<close> and \<^verbatim>\<open>int_linear\<close> are as the specification gives them; the
  arithmetic is exact.)
\<close>

theorem corner_exactness:
  assumes "valid_table tab" and "init interp2d tab = Inr self"
  shows "\<forall>r\<in>set tab. get_vals self (rP r) (rT r) =
           ([], Inr ([rVp r], [rVs r], [rVp_an r], [rVs_an r], [rVphi r], [rDens r]))"
proof
  fix r assume "r \<in> set tab"
  from get_vals_node[OF assms this]
  show "get_vals self (rP r) (rT r) =
           ([], Inr ([rVp r], [rVs r], [rVp_an r], [rVs_an r], [rVphi r], [rDens r]))"
    by (simp add: six_def cell_def)
qed

theorem corner_exactness_witness:
  "valid_table scenario \<and>
   (\<exists>self. init stub_interp2d scenario = Inr self \<and>
      get_vals self 1 100 = ([], Inr ([4], [2], [5], [3], [4], [4000])) \<and>
      get_vals self 3 300 = ([], Inr ([5.4], [2], [5], [3], [4], [5400]))) \<and>
   valid_table descending \<and>
   (\<exists>self. init stub_interp2d descending = Inr self \<and>
      get_vals self 3 100 = ([], Inr ([5], [2], [5], [3], [4], [5000])) \<and>
      get_vals self 1 200 = ([], Inr ([4.2], [2], [5], [3], [4], [4200])))"
proof -
  from scenario_init obtain self where I: "init stub_interp2d scenario = Inr self" by blast
  have "sample_row 1 100 4.0 \<in> set scenario" "sample_row 3 300 5.4 \<in> set scenario"
    by (simp_all add: scenario_def)
  from corner_exactness[OF valid_scenario I, rule_format, OF this(1)]
    corner_exactness[OF valid_scenario I, rule_format, OF this(2)] I
  have 1: "\<exists>self. init stub_interp2d scenario = Inr self \<and>
      get_vals self 1 100 = ([], Inr ([4], [2], [5], [3], [4], [4000])) \<and>
      get_vals self 3 300 = ([], Inr ([5.4], [2], [5], [3], [4], [5400]))"
    by (auto simp: sample_row_def)
  from descending_init obtain self' where I': "init stub_interp2d descending = Inr self'" by blast
  have "sample_row 3 100 5.0 \<in> set descending" "sample_row 1 200 4.2 \<in> set descending"
    by (simp_all add: descending_def)
  from corner_exactness[OF valid_descending I', rule_format, OF this(1)]
    corner_exactness[OF valid_descending I', rule_format, OF this(2)] I'
  have 2: "\<exists>self. init stub_interp2d descending = Inr self \<and>
      get_vals self 3 100 = ([], Inr ([5], [2], [5], [3], [4], [5000])) \<and>
      get_vals self 1 200 = ([], Inr ([4.2], [2], [5], [3], [4], [4200]))"
    by (auto simp: sample_row_def)
  from 1 2 valid_scenario valid_descending show ?thesis by blast
qed

text \<open>
  C2 (as stated, it fails). The table in blocks 3, 2, 1 is a valid table. The pressure 1.2
  is strictly inside the range of pressures and its nearest axis entry is the entry 1, of
  index 0, below it; the rule gives the bounds (1, 2). \<^verbatim>\<open>get_vals\<close> looks for the next
  entry one block further in the table, beyond its end, and raises IndexError.
\<close>

theorem bounds_block_order_counterexample:
  "valid_table descending \<and>
   (case init stub_interp2d descending of Inl e \<Rightarrow> False
    | Inr self \<Rightarrow>
        p_min self < 1.2 \<and> 1.2 < p_max self \<and> nearest (pres self) 1.2 0 \<and>
        spec_bounds (pres self) 1.2 0 = (1, 2) \<and>
        pressure_bounds self 1.2 = ([], Inl IndexError))"
proof -
  from descending_init obtain self where I: "init stub_interp2d descending = Inr self" by blast
  note D = descending_attrs[OF I]
  have len: "length (temp self) = 3" by (simp add: D)
  have n: "nearest (pres self) 1.2 0" unfolding D
    by (simp add: nearest_def less_Suc_eq numeral_3_eq_3)
  have b: "pressure_bounds self 1.2 = ([], Inl IndexError)"
    unfolding pressure_bounds_find[OF I] column_0 len by (rule descending_bounds_low)
  from n b show ?thesis unfolding D(1) by (simp add: I D valid_descending spec_bounds_def)
qed

text \<open>
  C2 (amended). On a valid table whose pressure blocks are in increasing order of pressure,
  for a pressure strictly between the lowest and the highest pressure and any index \<open>k\<close>
  of an axis entry nearest to it, the bound-finding of \<^verbatim>\<open>get_vals\<close> prints nothing and
  returns the pair that the rule of the specification gives: the entry \<open>k\<close> and the next
  entry when the entry \<open>k\<close> is below the value, the previous entry and the entry \<open>k\<close>
  when it is at or above (an exact match included). The next or previous entry exists. For
  the temperature the same holds on every valid table, whatever the order of its blocks.
\<close>

theorem bounds_select_nearest:
  assumes V: "valid_table tab" and I: "init interp2d tab = Inr self"
  shows
    "(ascending_table tab \<longrightarrow>
       (\<forall>p k. p_min self < p \<and> p < p_max self \<and> nearest (pres self) p k \<longrightarrow>
          pressure_bounds self p = ([], Inr (spec_bounds (pres self) p k)) \<and>
          (if pres self ! k < p then k + 1 < length (pres self) else 0 < k))) \<and>
     (\<forall>t k. t_min self < t \<and> t < t_max self \<and> nearest (temp self) t k \<longrightarrow>
        temperature_bounds self t = ([], Inr (spec_bounds (temp self) t k)) \<and>
        (if temp self ! k < t then k + 1 < length (temp self) else 0 < k))"
proof -
  have A: "temp self = np_unique (map rT tab)" "pres self = np_unique (map rP tab)"
    using init_attrs[OF I] by simp_all
  note LT = laid_out_temperature[OF V, folded A]
  note M = init_minmax[OF I]
  have P: "pressure_bounds self p = ([], Inr (spec_bounds (pres self) p k)) \<and>
        (if pres self ! k < p then k + 1 < length (pres self) else 0 < k)"
    if asc: "ascending_table tab"
      and h: "p_min self < p \<and> p < p_max self \<and> nearest (pres self) p k" for p k
  proof -
    note LP = laid_out_pressure[OF asc, folded A]
    from h have h': "hd (pres self) < p" "p < last (pres self)" "nearest (pres self) p k"
      unfolding M by simp_all
    from find_bounds_nearest[OF LP h'] show ?thesis
      unfolding pressure_bounds_find[OF I] by simp
  qed
  have T: "temperature_bounds self t = ([], Inr (spec_bounds (temp self) t k)) \<and>
        (if temp self ! k < t then k + 1 < length (temp self) else 0 < k)"
    if h: "t_min self < t \<and> t < t_max self \<and> nearest (temp self) t k" for t k
  proof -
    from h have h': "hd (temp self) < t" "t < last (temp self)" "nearest (temp self) t k"
      unfolding M by simp_all
    from find_bounds_nearest[OF LT h'] show ?thesis
      unfolding temperature_bounds_find[OF I] by simp
  qed
  from P T show ?thesis by blast
qed

theorem bounds_select_nearest_witness:
  "valid_table scenario \<and> ascending_table scenario \<and>
   (\<exists>self. init stub_interp2d scenario = Inr self \<and>
      p_min self < 1.5 \<and> 1.5 < p_max self \<and> nearest (pres self) 1.5 0 \<and>
      pressure_bounds self 1.5 = ([], Inr (1, 2)) \<and>
      t_min self < 200 \<and> 200 < t_max self \<and> nearest (temp self) 200 1 \<and>
      temperature_bounds self 200 = ([], Inr (100, 200))) \<and>
   valid_table descending \<and>
   (\<exists>self. init stub_interp2d descending = Inr self \<and>
      t_min self < 150 \<and> 150 < t_max self \<and> nearest (temp self) 150 0 \<and>
      temperature_bounds self 150 = ([], Inr (100, 200)))"
proof -
  from scenario_init obtain self where I: "init stub_interp2d scenario = Inr self" by blast
  note B = bounds_select_nearest[OF valid_scenario I]
  note S = scenario_attrs[OF I]
  have hp: "p_min self < 1.5 \<and> 1.5 < p_max self \<and> nearest (pres self) 1.5 0"
    unfolding S using nearest_scenario by simp
  have ht: "t_min self < 200 \<and> 200 < t_max self \<and> nearest (temp self) 200 1"
    unfolding S using nearest_scenario by simp
  from B ascending_scenario hp
  have "pressure_bounds self 1.5 = ([], Inr (spec_bounds (pres self) 1.5 0))" by blast
  moreover from B ht have "temperature_bounds self 200 = ([], Inr (spec_bounds (temp self) 200 1))"
    by blast
  ultimately have 1: "\<exists>self. init stub_interp2d scenario = Inr self \<and>
      p_min self < 1.5 \<and> 1.5 < p_max self \<and> nearest (pres self) 1.5 0 \<and>
      pressure_bounds self 1.5 = ([], Inr (1, 2)) \<and>
      t_min self < 200 \<and> 200 < t_max self \<and> nearest (temp self) 200 1 \<and>
      temperature_bounds self 200 = ([], Inr (100, 200))"
    using hp ht I by (auto simp: S spec_bounds_def)
  from descending_init obtain self' where I': "init stub_interp2d descending = Inr self'" by blast
  note B' = bounds_select_nearest[OF valid_descending I']
  note D = descending_attrs[OF I']
  have ht': "t_min self' < 150 \<and> 150 < t_max self' \<and> nearest (temp self') 150 0"
    unfolding D using nearest_scenario by simp
  from B' ht' have "temperature_bounds self' 150 = ([], Inr (spec_bounds (temp self') 150 0))"
    by blast
  then have 2: "\<exists>self. init stub_interp2d descending = Inr self \<and>
      t_min self < 150 \<and> 150 < t_max self \<and> nearest (temp self) 150 0 \<and>
      temperature_bounds self 150 = ([], Inr (100, 200))"
    using ht' I' by (auto simp: D spec_bounds_def)
  from 1 2 valid_scenario ascending_scenario valid_descending show ?thesis by blast
qed

text \<open>
  C3 (as stated, it fails). The table in blocks 3, 2, 1 is a valid table with the pressure
  axis 1, 2, 3, the temperature axis 100, 200, 300 and the lines of the scenario table, so
  the same four \<open>vp\<close> values at the same nodes. \<^verbatim>\<open>get_vals\<close> at pressure 1.5 and
  temperature 150 takes the pressure bounds (3, 2) there and returns 4.2 for \<open>vp\<close>.
\<close>

theorem scenario_midpoint_counterexample:
  "valid_table descending \<and> set descending = set scenario \<and>
   np_unique (column descending 0) = [1, 2, 3] \<and>
   np_unique (column descending 1) = [100, 200, 300] \<and>
   (case init stub_interp2d descending of Inl e \<Rightarrow> False
    | Inr self \<Rightarrow> map_sum id fst (snd (get_vals self 1.5 150)) = Inr [4.2])"
proof -
  from descending_init obtain self where I: "init stub_interp2d descending = Inr self" by blast
  note D = descending_attrs[OF I]
  have len: "length (temp self) = 3" by (simp add: D)
  note V = valid_descending
  have pb: "pressure_bounds self 1.5 = ([], Inr (3, 2))"
    unfolding pressure_bounds_find[OF I] column_0 len by (rule descending_bounds_mid)
  have ht: "hd (np_unique (map rT descending)) < 150" "150 < last (np_unique (map rT descending))"
    "nearest (np_unique (map rT descending)) 150 0"
    unfolding descending_temp using nearest_scenario by simp_all
  have tb: "temperature_bounds self 150 = ([], Inr (100, 200))"
    using find_bounds_nearest(1)[OF laid_out_temperature[OF V] ht, of TemperatureBelow TemperatureAbove]
    unfolding temperature_bounds_find[OF I] descending_temp by (simp add: spec_bounds_def)
  have mem: "set (map rP descending) = {1, 2, 3}" "set (map rT descending) = {100, 200, 300}"
    by (auto simp: descending_def sample_row_def)
  have g: "get_vals self 1.5 150 = ([] @ [], Inr (six (blend descending 3 2 100 200 1.5 150)))"
    by (rule get_vals_eval[OF V I pb _ _ tb]) (simp_all only: mem, simp_all)
  have r: "sample_row 3 100 5.0 \<in> set descending" "sample_row 3 200 5.2 \<in> set descending"
    "sample_row 2 100 4.4 \<in> set descending" "sample_row 2 200 4.6 \<in> set descending"
    by (simp_all add: descending_def)
  have s: "stored descending 3 100 2 = 5.0" "stored descending 3 200 2 = 5.2"
          "stored descending 2 100 2 = 4.4" "stored descending 2 200 2 = 4.6"
    using stored_row[OF V r(1), of 2] stored_row[OF V r(2), of 2]
      stored_row[OF V r(3), of 2] stored_row[OF V r(4), of 2]
    by (simp_all add: sample_row_def cell_def)
  have "blend descending 3 2 100 200 1.5 150 2 = 4.2"
    by (simp add: blend_def norm_vals_def Let_def s)
  with g have "map_sum id fst (snd (get_vals self 1.5 150)) = Inr [4.2]"
    by (simp add: six_def)
  moreover have "set descending = set scenario"
    by (auto simp: descending_def scenario_def)
  moreover have "np_unique (column descending 0) = [1, 2, 3]"
    "np_unique (column descending 1) = [100, 200, 300]"
    using descending_pres descending_temp by simp_all
  ultimately show ?thesis using I V by simp
qed

text \<open>
  C3 (amended). On every valid table whose pressure blocks are in increasing order of
  pressure, with the pressures 1, 2, 3, the temperatures 100, 200, 300 and the \<open>vp\<close>
  values 4.0 at (1, 100), 4.2 at (1, 200), 4.4 at (2, 100), 4.6 at (2, 200), whatever its
  other entries, \<^verbatim>\<open>get_vals\<close> at pressure 1.5 and temperature 150 returns 4.3 for \<open>vp\<close>
  and prints nothing.
\<close>

theorem scenario_midpoint:
  assumes Asc: "ascending_table tab" and I: "init interp2d tab = Inr self"
    and ps: "pres self = [1, 2, 3]"
    and ts: "temp self = [100, 200, 300]"
    and v11: "\<forall>r\<in>set tab. rP r = 1 \<and> rT r = 100 \<longrightarrow> rVp r = 4.0"
    and v12: "\<forall>r\<in>set tab. rP r = 1 \<and> rT r = 200 \<longrightarrow> rVp r = 4.2"
    and v21: "\<forall>r\<in>set tab. rP r = 2 \<and> rT r = 100 \<longrightarrow> rVp r = 4.4"
    and v22: "\<forall>r\<in>set tab. rP r = 2 \<and> rT r = 200 \<longrightarrow> rVp r = 4.6"
  shows "\<exists>Vs Vp_an Vs_an Vphi Dens.
           get_vals self 1.5 150 = ([], Inr ([4.3], Vs, Vp_an, Vs_an, Vphi, Dens))"
proof -
  note V = ascending_valid[OF Asc]
  have ps': "np_unique (map rP tab) = [1, 2, 3]" and ts': "np_unique (map rT tab) = [100, 200, 300]"
    using ps ts init_attrs(3,4)[OF I] by simp_all
  note LP = laid_out_pressure[OF Asc, unfolded ps' ts'] and LT = laid_out_temperature[OF V, unfolded ts']
  have "set (map rP tab) = set (np_unique (map rP tab))" "set (map rT tab) = set (np_unique (map rT tab))"
    by simp_all
  then have mem: "set (map rP tab) = {1, 2, 3}" "set (map rT tab) = {100, 200, 300}"
    unfolding ps' ts' by auto
  have pb: "pressure_bounds self 1.5 = ([], Inr (1, 2))"
    using find_bounds_nearest(1)[OF LP _ _ nearest_scenario(1), of PressureBelow PressureAbove]
    unfolding pressure_bounds_find[OF I] ts by (simp add: spec_bounds_def)
  have tb: "temperature_bounds self 150 = ([], Inr (100, 200))"
    using find_bounds_nearest(1)[OF LT _ _ nearest_scenario(3), of TemperatureBelow TemperatureAbove]
    unfolding temperature_bounds_find[OF I] by (simp add: spec_bounds_def)
  have g: "get_vals self 1.5 150 = ([] @ [], Inr (six (blend tab 1 2 100 200 1.5 150)))"
    by (rule get_vals_eval[OF V I pb _ _ tb]) (simp_all only: mem, simp_all)
  have s: "stored tab 1 100 2 = 4.0" "stored tab 1 200 2 = 4.2"
          "stored tab 2 100 2 = 4.4" "stored tab 2 200 2 = 4.6"
    using stored_vp[OF V _ _ v11] stored_vp[OF V _ _ v12] stored_vp[OF V _ _ v21] stored_vp[OF V _ _ v22]
    unfolding mem by simp_all
  have "blend tab 1 2 100 200 1.5 150 2 = 4.3"
    by (simp add: blend_def norm_vals_def Let_def s)
  with g show ?thesis by (simp add: six_def)
qed

theorem scenario_midpoint_witness:
  "ascending_table scenario \<and>
   (\<exists>self. init stub_interp2d scenario = Inr self \<and>
      pres self = [1, 2, 3] \<and> temp self = [100, 200, 300] \<and>
      (\<exists>Vs Vp_an Vs_an Vphi Dens.
           get_vals self 1.5 150 = ([], Inr ([4.3], Vs, Vp_an, Vs_an, Vphi, Dens))))"
proof -
  from scenario_init obtain self where I: "init stub_interp2d scenario = Inr self" by blast
  note A = scenario_attrs(1,2)[OF I]
  have v: "\<forall>r\<in>set scenario. rP r = 1 \<and> rT r = 100 \<longrightarrow> rVp r = 4.0"
          "\<forall>r\<in>set scenario. rP r = 1 \<and> rT r = 200 \<longrightarrow> rVp r = 4.2"
          "\<forall>r\<in>set scenario. rP r = 2 \<and> rT r = 100 \<longrightarrow> rVp r = 4.4"
          "\<forall>r\<in>set scenario. rP r = 2 \<and> rT r = 200 \<longrightarrow> rVp r = 4.6"
    by (simp_all add: scenario_def sample_row_def)
  from scenario_midpoint[OF ascending_scenario I A v] ascending_scenario I A show ?thesis by blast
qed

text \<open>
  C4 (as stated, it fails). A pressure exactly at the lowest pressure of the table is at a
  domain edge, and \<^verbatim>\<open>get_vals\<close> prints nothing there: the tests of lines 95 and 99 are
  strict. And on the valid table in blocks 3, 2, 1 the query at the lowest temperature 100,
  a domain edge, and the pressure 1.2 raises IndexError.
\<close>

theorem edge_warning_counterexample:
  "(case init stub_interp2d scenario of Inl e \<Rightarrow> False
    | Inr self \<Rightarrow> p_min self = 1 \<and> fst (get_vals self 1 150) = []) \<and>
   valid_table descending \<and>
   (case init stub_interp2d descending of Inl e \<Rightarrow> False
    | Inr self \<Rightarrow> t_min self = 100 \<and> get_vals self 1.2 100 = ([], Inl IndexError))"
proof -
  from scenario_init obtain self where I: "init stub_interp2d scenario = Inr self" by blast
  note M = scenario_attrs(3-6)[OF I]
  from get_vals_total[OF ascending_scenario I, of 1 150] have "fst (get_vals self 1 150) = []"
    by (auto simp: M)
  with I M have 1: "(case init stub_interp2d scenario of Inl e \<Rightarrow> False
    | Inr self \<Rightarrow> p_min self = 1 \<and> fst (get_vals self 1 150) = [])" by simp
  from descending_init obtain self' where I': "init stub_interp2d descending = Inr self'" by blast
  note D = descending_attrs[OF I']
  have len: "length (temp self') = 3" by (simp add: D)
  have b: "pressure_bounds self' 1.2 = ([], Inl IndexError)"
    unfolding pressure_bounds_find[OF I'] column_0 len by (rule descending_bounds_low)
  have "get_vals self' 1.2 100 = ([], Inl IndexError)"
    unfolding get_vals_def b by simp
  with I' D have 2: "(case init stub_interp2d descending of Inl e \<Rightarrow> False
    | Inr self \<Rightarrow> t_min self = 100 \<and> get_vals self 1.2 100 = ([], Inl IndexError))" by simp
  from 1 2 valid_descending show ?thesis by blast
qed

text \<open>
  C4 (amended). On a valid table whose pressure blocks are in increasing order of pressure,
  \<^verbatim>\<open>get_vals\<close> raises nothing at any point and returns six arrays of one number each;
  the values are those it returns at the point with the pressure and the temperature
  clamped into the range of the table. It prints a line for the pressure exactly when the
  pressure is strictly outside the range of pressures, and a line for the temperature
  exactly when the temperature is strictly outside the range of temperatures. In
  particular a pressure below the lowest pressure, at the temperature of a line of the
  lowest pressure, returns the stored values of that line.
\<close>

theorem clamped_query:
  assumes Asc: "ascending_table tab" and I: "init interp2d tab = Inr self"
  shows
    "(\<forall>p t. (\<exists>a b c d e f. snd (get_vals self p t) = Inr ([a], [b], [c], [d], [e], [f])) \<and>
            snd (get_vals self p t) =
              snd (get_vals self (max (p_min self) (min (p_max self) p))
                                 (max (t_min self) (min (t_max self) t))) \<and>
            fst (get_vals self p t) =
              (if p < p_min self then [PressureBelow p]
               else if p_max self < p then [PressureAbove p] else []) @
              (if t < t_min self then [TemperatureBelow t]
               else if t_max self < t then [TemperatureAbove t] else [])) \<and>
     (\<forall>r\<in>set tab. \<forall>p. rP r = p_min self \<and> p < p_min self \<longrightarrow>
        get_vals self p (rT r) =
          ([PressureBelow p], Inr ([rVp r], [rVs r], [rVp_an r], [rVs_an r], [rVphi r], [rDens r])))"
proof -
  note M = init_minmax[OF I]
  have 1: "\<exists>a b c d e f. snd (get_vals self p t) = Inr ([a], [b], [c], [d], [e], [f])" for p t
    using get_vals_total[OF Asc I, of p t] by (auto simp: six_def)
  have 2: "snd (get_vals self p t) =
              snd (get_vals self (max (p_min self) (min (p_max self) p))
                                 (max (t_min self) (min (t_max self) t)))" for p t
    unfolding M
    using get_vals_clamp_p[OF Asc I, of p t]
      get_vals_clamp_t[OF Asc I, of "max (hd (pres self)) (min (last (pres self)) p)" t]
    by simp
  have 3: "fst (get_vals self p t) =
              (if p < p_min self then [PressureBelow p]
               else if p_max self < p then [PressureAbove p] else []) @
              (if t < t_min self then [TemperatureBelow t]
               else if t_max self < t then [TemperatureAbove t] else [])" for p t
    using get_vals_total[OF Asc I, of p t] by auto
  have 4: "get_vals self p (rT r) =
          ([PressureBelow p], Inr ([rVp r], [rVs r], [rVp_an r], [rVs_an r], [rVphi r], [rDens r]))"
    if "r \<in> set tab" "rP r = p_min self \<and> p < p_min self" for r p
    using get_vals_below_node[OF Asc I that(1), of p] that(2) by (simp add: six_def cell_def)
  from 1 2 3 4 show ?thesis by blast
qed

theorem clamped_query_witness:
  "ascending_table scenario \<and>
   (\<exists>self. init stub_interp2d scenario = Inr self \<and> p_min self = 1 \<and>
      get_vals self (- 5) 100 = ([PressureBelow (- 5)], Inr ([4], [2], [5], [3], [4], [4000])) \<and>
      snd (get_vals self (- 5) 150) = snd (get_vals self 1 150) \<and>
      fst (get_vals self 4 50) = [PressureAbove 4, TemperatureBelow 50])"
proof -
  from scenario_init obtain self where I: "init stub_interp2d scenario = Inr self" by blast
  from clamped_query[OF ascending_scenario I] have
    c: "\<And>p t. snd (get_vals self p t) =
              snd (get_vals self (max (p_min self) (min (p_max self) p))
                                 (max (t_min self) (min (t_max self) t)))"
    and m: "\<And>p t. fst (get_vals self p t) =
              (if p < p_min self then [PressureBelow p]
               else if p_max self < p then [PressureAbove p] else []) @
              (if t < t_min self then [TemperatureBelow t]
               else if t_max self < t then [TemperatureAbove t] else [])"
    and e: "\<And>r p. r \<in> set scenario \<Longrightarrow> rP r = p_min self \<and> p < p_min self \<Longrightarrow>
        get_vals self p (rT r) =
          ([PressureBelow p], Inr ([rVp r], [rVs r], [rVp_an r], [rVs_an r], [rVphi r], [rDens r]))"
    by blast+
  note M = scenario_attrs(3-6)[OF I]
  have r: "sample_row 1 100 4.0 \<in> set scenario" by (simp add: scenario_def)
  have "rP (sample_row 1 100 4.0) = p_min self \<and> - 5 < p_min self" by (simp add: M sample_row_def)
  from e[OF r this] have 1: "get_vals self (- 5) 100 = ([PressureBelow (- 5)], Inr ([4], [2], [5], [3], [4], [4000]))"
    by (simp add: sample_row_def)
  have 2: "snd (get_vals self (- 5) 150) = snd (get_vals self 1 150)"
    using c[of "- 5" 150] by (simp add: M)
  have 3: "fst (get_vals self 4 50) = [PressureAbove 4, TemperatureBelow 50]"
    using m[of 4 50] by (simp add: M)
  from I M 1 2 3 ascending_scenario show ?thesis by blast
qed

text \<open>
  C5 (as stated, it fails). Seven lines over three temperatures: the number of lines is not
  a multiple of the number of temperatures, and the construction returns the object.
\<close>

theorem init_row_count_counterexample:
  "length truncated mod length (np_unique (column truncated 1)) \<noteq> 0 \<and>
   map_sum id table (init stub_interp2d truncated) = Inr truncated"
proof -
  from truncated_init obtain self where I: "init stub_interp2d truncated = Inr self" by blast
  from init_attrs(1)[OF I] I show ?thesis
    unfolding truncated_axes truncated_length by simp
qed

text \<open>
  C5 (amended). \<^verbatim>\<open>__init__\<close> does not compare the number of lines with the number of
  unique temperatures. On an empty table it raises ValueError. On any other table, with
  \<open>np\<close> unique pressures and \<open>nt\<close> unique temperatures, it raises ValueError and
  returns no object when the number of lines is below \<open>np * nt\<close> and is not
  \<open>(np - 1) * nt + 1\<close>. In every other case it returns the object, provided SciPy
  builds an interpolant from the two axes and every array of the shape of the grid; so a
  table whose last block holds one line is accepted (the line is broadcast over the
  column). A returned object holds the table as given.
\<close>

theorem init_row_count:
  "init interp2d [] = Inl ValueError \<and>
   (tab \<noteq> [] \<and>
    \<not> (length (np_unique (column tab 0)) * length (np_unique (column tab 1)) \<le> length tab \<or>
       length tab = (length (np_unique (column tab 0)) - 1) * length (np_unique (column tab 1)) + 1)
    \<longrightarrow> init interp2d tab = Inl ValueError) \<and>
   (tab \<noteq> [] \<and>
    (length (np_unique (column tab 0)) * length (np_unique (column tab 1)) \<le> length tab \<or>
     length tab = (length (np_unique (column tab 0)) - 1) * length (np_unique (column tab 1)) + 1) \<and>
    (\<forall>z. array_shape (length (np_unique (column tab 1))) (length (np_unique (column tab 0))) z \<longrightarrow>
         (\<exists>f. interp2d (np_unique (column tab 0)) (np_unique (column tab 1)) z = Inr f))
    \<longrightarrow> (\<exists>self. init interp2d tab = Inr self)) \<and>
   (\<forall>self. init interp2d tab = Inr self \<longrightarrow> table self = tab)"
proof (intro conjI impI allI)
  show "init interp2d [] = Inl ValueError" by (rule init_empty)
next
  assume a: "tab \<noteq> [] \<and>
    \<not> (length (np_unique (column tab 0)) * length (np_unique (column tab 1)) \<le> length tab \<or>
       length tab = (length (np_unique (column tab 0)) - 1) * length (np_unique (column tab 1)) + 1)"
  then have pos: "0 < length (np_unique (map rP tab))" "0 < length (np_unique (map rT tab))" by simp_all
  from a have "\<not> (\<forall>i<length (np_unique (map rP tab)).
      block_fits (length tab) (length (np_unique (map rT tab))) i)"
    unfolding all_blocks_fit[OF pos] by simp
  with a show "init interp2d tab = Inl ValueError" by (intro init_fill_fails) simp_all
next
  assume a: "tab \<noteq> [] \<and>
    (length (np_unique (column tab 0)) * length (np_unique (column tab 1)) \<le> length tab \<or>
     length tab = (length (np_unique (column tab 0)) - 1) * length (np_unique (column tab 1)) + 1) \<and>
    (\<forall>z. array_shape (length (np_unique (column tab 1))) (length (np_unique (column tab 0))) z \<longrightarrow>
         (\<exists>f. interp2d (np_unique (column tab 0)) (np_unique (column tab 1)) z = Inr f))"
  then have pos: "0 < length (np_unique (map rP tab))" "0 < length (np_unique (map rT tab))" by simp_all
  from a have "\<forall>i<length (np_unique (map rP tab)).
      block_fits (length tab) (length (np_unique (map rT tab))) i"
    unfolding all_blocks_fit[OF pos] by simp
  with a show "\<exists>self. init interp2d tab = Inr self" by (intro init_succeeds) simp_all
next
  fix self assume "init interp2d tab = Inr self"
  then show "table self = tab" by (rule init_attrs(1))
qed

theorem init_row_count_witness:
  "truncated \<noteq> [] \<and>
   (\<exists>self. init stub_interp2d truncated = Inr self \<and> table self = truncated) \<and>
   take 8 scenario \<noteq> [] \<and> init stub_interp2d (take 8 scenario) = Inl ValueError"
proof -
  have a: "length (np_unique (column truncated 0)) * length (np_unique (column truncated 1)) \<le> length truncated \<or>
        length truncated = (length (np_unique (column truncated 0)) - 1) * length (np_unique (column truncated 1)) + 1"
    unfolding truncated_axes truncated_length by simp
  have ax8: "np_unique (column (take 8 scenario) 0) = [1, 2, 3]"
       "np_unique (column (take 8 scenario) 1) = [100, 200, 300]"
    by (simp_all add: scenario_def sample_row_def np_unique_def)
  have l8: "length (take 8 scenario) = 8" "take 8 scenario \<noteq> []" by (simp_all add: scenario_def)
  have b: "\<not> (length (np_unique (column (take 8 scenario) 0)) * length (np_unique (column (take 8 scenario) 1)) \<le> length (take 8 scenario) \<or>
        length (take 8 scenario) = (length (np_unique (column (take 8 scenario) 0)) - 1) * length (np_unique (column (take 8 scenario) 1)) + 1)"
    unfolding ax8 l8 by simp
  have acc: "\<forall>z. array_shape (length (np_unique (column truncated 1))) (length (np_unique (column truncated 0))) z \<longrightarrow>
        (\<exists>f. stub_interp2d (np_unique (column truncated 0)) (np_unique (column truncated 1)) z = Inr f)"
    using stub_accepts by blast
  from init_row_count[of stub_interp2d truncated] a truncated_length(2) acc
  obtain self where s: "init stub_interp2d truncated = Inr self" "table self = truncated" by blast
  from init_row_count[of stub_interp2d "take 8 scenario"] b l8(2)
  have "init stub_interp2d (take 8 scenario) = Inl ValueError" by blast
  with s truncated_length(2) l8(2) show ?thesis by blast
qed

text \<open>
  C6 (as stated, it fails). One pressure and two temperatures: \<^verbatim>\<open>interp_points\<close>
  returns one value and raises nothing.
\<close>

theorem interp_points_lengths_counterexample:
  "(case init stub_interp2d scenario of Inl e \<Rightarrow> False
    | Inr self \<Rightarrow>
        interp_points stub_interp2d self (PySeq [1]) (PySeq [100, 200]) ''vp'' = Inr [101])"
proof -
  from scenario_init obtain self where I: "init stub_interp2d scenario = Inr self" by blast
  have "lower ''vp'' \<in> set registry" by (simp add: lower_def lower_char_def registry_def)
  with init_fields(1)[OF I] obtain entry where e: "fields_getitem self (lower ''vp'') = Inr entry" by blast
  have "interp_points stub_interp2d self (PySeq [1]) (PySeq [100, 200]) ''vp'' = Inr [101]"
    using e by (simp add: interp_points_def Let_def points_loop_result promote_def stub_interp2d_def)
  with I show ?thesis by simp
qed

text \<open>
  C6 (amended). \<^verbatim>\<open>interp_points\<close> does not compare the two lengths. For a known field
  whose interpolant SciPy builds, with ints and floats taken as sequences of length one:
  when there are at least as many temperatures as pressures it returns one value for each
  pressure, the value of the interpolant at the pressure and the temperature of the same
  index, and ignores the temperatures beyond; when there are fewer temperatures than
  pressures it raises IndexError.
\<close>

theorem interp_points_lengths:
  assumes "fields_getitem self (lower field) = Inr entry"
    and "interp2d (pres self) (temp self) (fst (snd entry)) = Inr grid"
  shows "interp_points interp2d self press temps field =
           (if length (promote press) \<le> length (promote temps)
            then Inr (map2 grid (promote press) (promote temps))
            else Inl IndexError) \<and>
         promote (PyInt i) = [of_int i] \<and> promote (PyFloat x) = [x] \<and> promote (PySeq xs) = xs"
  using assms by (simp add: interp_points_def Let_def points_loop_result promote_def)

theorem interp_points_lengths_witness:
  "\<exists>self entry grid. init stub_interp2d scenario = Inr self \<and>
     fields_getitem self (lower ''Vs'') = Inr entry \<and>
     stub_interp2d (pres self) (temp self) (fst (snd entry)) = Inr grid \<and>
     interp_points stub_interp2d self (PySeq [1, 2]) (PySeq [100, 200]) ''Vs'' = Inr [101, 202] \<and>
     interp_points stub_interp2d self (PySeq [1, 2]) (PySeq [100]) ''Vs'' = Inl IndexError \<and>
     interp_points stub_interp2d self (PyInt 2) (PyFloat 150) ''Vs'' = Inr [152]"
proof -
  from scenario_init obtain self where I: "init stub_interp2d scenario = Inr self" by blast
  have "lower ''Vs'' \<in> set registry" by (simp add: lower_def lower_char_def registry_def)
  with init_fields(1)[OF I] obtain entry where e: "fields_getitem self (lower ''Vs'') = Inr entry" by blast
  have g: "stub_interp2d (pres self) (temp self) (fst (snd entry)) = Inr (\<lambda>p t. p + t)"
    by (simp add: stub_interp2d_def)
  from interp_points_lengths[where interp2d = stub_interp2d and press = "PySeq [1, 2]"
        and temps = "PySeq [100, 200]", OF e g]
    interp_points_lengths[where interp2d = stub_interp2d and press = "PySeq [1, 2]"
        and temps = "PySeq [100]", OF e g]
    interp_points_lengths[where interp2d = stub_interp2d and press = "PyInt 2"
        and temps = "PyFloat 150", OF e g]
  have "interp_points stub_interp2d self (PySeq [1, 2]) (PySeq [100, 200]) ''Vs'' = Inr [101, 202]"
    "interp_points stub_interp2d self (PySeq [1, 2]) (PySeq [100]) ''Vs'' = Inl IndexError"
    "interp_points stub_interp2d self (PyInt 2) (PyFloat 150) ''Vs'' = Inr [152]"
    by (simp_all add: promote_def)
  with I e g show ?thesis by blast
qed

text \<open>
  C7. On a constructed object, for a name whose lower-case form is one of vp, vs, vp_ani,
  vs_ani, vphi, density, qs, t_sol (these are their own lower-case forms), in any mix of
  capital and small letters, the lookup \<^verbatim>\<open>self.fields[field.lower()]\<close> finds the entry
  of the dictionary under the lower-case name, and \<^verbatim>\<open>interp_points\<close> goes on with that
  entry: it hands the array of the entry to \<^verbatim>\<open>interp2d\<close> and returns the values of the
  interpolant (or what \<^verbatim>\<open>interp2d\<close> raised). For every other name the lookup raises
  KeyError, and so does \<^verbatim>\<open>interp_points\<close>. Two names with the same lower-case form give
  the same result. The object is an argument only: no call returns a changed object.
\<close>

theorem field_lookup:
  assumes "init interp2d tab = Inr self"
  shows "(lower field \<in> set registry \<longrightarrow>
            (\<exists>entry. (lower field, entry) \<in> set (fields_dict self) \<and>
               fields_getitem self (lower field) = Inr entry \<and>
               interp_points interp2d self press temps field =
                 (case interp2d (pres self) (temp self) (fst (snd entry)) of
                    Inl e \<Rightarrow> Inl e
                  | Inr grid \<Rightarrow>
                      if length (promote press) \<le> length (promote temps)
                      then Inr (map2 grid (promote press) (promote temps))
                      else Inl IndexError))) \<and>
         (lower field \<notin> set registry \<longrightarrow>
            fields_getitem self (lower field) = Inl KeyError \<and>
            interp_points interp2d self press temps field = Inl KeyError) \<and>
         (lower field = lower field' \<longrightarrow>
            interp_points interp2d self press temps field = interp_points interp2d self press temps field') \<and>
         (\<forall>name\<in>set registry. lower name = name)"
proof (intro conjI impI)
  assume "lower field \<in> set registry"
  then obtain entry where e: "fields_getitem self (lower field) = Inr entry"
    using init_fields(1)[OF assms] by blast
  then have "map_of (fields_dict self) (lower field) = Some entry"
    by (simp add: fields_getitem_def split: option.splits)
  then have m: "(lower field, entry) \<in> set (fields_dict self)" by (rule map_of_SomeD)
  have "interp_points interp2d self press temps field =
                 (case interp2d (pres self) (temp self) (fst (snd entry)) of
                    Inl e \<Rightarrow> Inl e
                  | Inr grid \<Rightarrow>
                      if length (promote press) \<le> length (promote temps)
                      then Inr (map2 grid (promote press) (promote temps))
                      else Inl IndexError)"
  proof (cases "interp2d (pres self) (temp self) (fst (snd entry))")
    case (Inl err)
    then show ?thesis by (simp add: interp_points_def Let_def e)
  next
    case (Inr grid)
    then show ?thesis by (simp add: interp_points_def Let_def e points_loop_result)
  qed
  with e m show "\<exists>entry. (lower field, entry) \<in> set (fields_dict self) \<and>
               fields_getitem self (lower field) = Inr entry \<and>
               interp_points interp2d self press temps field =
                 (case interp2d (pres self) (temp self) (fst (snd entry)) of
                    Inl e \<Rightarrow> Inl e
                  | Inr grid \<Rightarrow>
                      if length (promote press) \<le> length (promote temps)
                      then Inr (map2 grid (promote press) (promote temps))
                      else Inl IndexError)"
    by (intro exI[of _ entry] conjI)
next
  assume a: "lower field \<notin> set registry"
  then show k: "fields_getitem self (lower field) = Inl KeyError" using init_fields(2)[OF assms] by simp
  then show "interp_points interp2d self press temps field = Inl KeyError"
    by (simp add: interp_points_def Let_def)
next
  assume "lower field = lower field'"
  then show "interp_points interp2d self press temps field = interp_points interp2d self press temps field'"
    by (simp add: interp_points_def)
next
  show "\<forall>name\<in>set registry. lower name = name"
    by (simp add: registry_def lower_def lower_char_def)
qed

theorem field_lookup_witness:
  "\<exists>self. init stub_interp2d scenario = Inr self \<and> lower ''DENSITY'' \<in> set registry \<and>
     (\<exists>entry. fields_getitem self (lower ''DENSITY'') = Inr entry) \<and>
     interp_points stub_interp2d self (PySeq [1, 2]) (PySeq [100, 200]) ''DENSITY'' = Inr [101, 202] \<and>
     lower ''Vp'' \<in> set registry \<and>
     interp_points stub_interp2d self (PySeq [1]) (PySeq [100]) ''Vp'' = Inr [101] \<and>
     lower ''rho'' \<notin> set registry \<and>
     interp_points stub_interp2d self (PySeq [1]) (PySeq [100]) ''rho'' = Inl KeyError \<and>
     lower ''Vp'' = lower ''vP'' \<and>
     interp_points stub_interp2d self (PySeq [1]) (PySeq [100]) ''Vp''
       = interp_points stub_interp2d self (PySeq [1]) (PySeq [100]) ''vP''"
proof -
  from scenario_init obtain self where I: "init stub_interp2d scenario = Inr self" by blast
  have h: "lower ''DENSITY'' \<in> set registry" "lower ''Vp'' \<in> set registry"
    "lower ''rho'' \<notin> set registry" "lower ''Vp'' = lower ''vP''"
    by (simp_all add: lower_def lower_char_def registry_def)
  have s: "stub_interp2d xs ys z = Inr (\<lambda>p t. p + t)" for xs ys z
    by (simp add: stub_interp2d_def)
  note F1 = field_lookup[OF I, of "''DENSITY''" "PySeq [1, 2]" "PySeq [100, 200]" "''DENSITY''"]
  from F1[THEN conjunct1, rule_format, OF h(1)] obtain entry where
    d1: "(lower ''DENSITY'', entry) \<in> set (fields_dict self) \<and>
         fields_getitem self (lower ''DENSITY'') = Inr entry \<and>
         interp_points stub_interp2d self (PySeq [1, 2]) (PySeq [100, 200]) ''DENSITY'' =
                 (case stub_interp2d (pres self) (temp self) (fst (snd entry)) of
                    Inl e \<Rightarrow> Inl e
                  | Inr grid \<Rightarrow>
                      if length (promote (PySeq [1, 2])) \<le> length (promote (PySeq [100, 200]))
                      then Inr (map2 grid (promote (PySeq [1, 2])) (promote (PySeq [100, 200])))
                      else Inl IndexError)" ..
  note e = d1[THEN conjunct2, THEN conjunct1] and d0 = d1[THEN conjunct2, THEN conjunct2]
  have d: "interp_points stub_interp2d self (PySeq [1, 2]) (PySeq [100, 200]) ''DENSITY'' = Inr [101, 202]"
    unfolding d0 s by (simp add: promote_def)
  note F2 = field_lookup[OF I, of "''Vp''" "PySeq [1]" "PySeq [100]" "''vP''"]
  from F2[THEN conjunct1, rule_format, OF h(2)] obtain entry' where
    v1: "(lower ''Vp'', entry') \<in> set (fields_dict self) \<and>
         fields_getitem self (lower ''Vp'') = Inr entry' \<and>
         interp_points stub_interp2d self (PySeq [1]) (PySeq [100]) ''Vp'' =
                 (case stub_interp2d (pres self) (temp self) (fst (snd entry')) of
                    Inl e \<Rightarrow> Inl e
                  | Inr grid \<Rightarrow>
                      if length (promote (PySeq [1])) \<le> length (promote (PySeq [100]))
                      then Inr (map2 grid (promote (PySeq [1])) (promote (PySeq [100])))
                      else Inl IndexError)" ..
  note v0 = v1[THEN conjunct2, THEN conjunct2]
  have v: "interp_points stub_interp2d self (PySeq [1]) (PySeq [100]) ''Vp'' = Inr [101]"
    unfolding v0 s by (simp add: promote_def)
  from F2 h(4) have q: "interp_points stub_interp2d self (PySeq [1]) (PySeq [100]) ''Vp''
       = interp_points stub_interp2d self (PySeq [1]) (PySeq [100]) ''vP''"
    by blast
  note F3 = field_lookup[OF I, of "''rho''" "PySeq [1]" "PySeq [100]" "''rho''"]
  from F3 h(3)
  have k: "interp_points stub_interp2d self (PySeq [1]) (PySeq [100]) ''rho'' = Inl KeyError"
    by blast
  from e have e': "\<exists>entry. fields_getitem self (lower ''DENSITY'') = Inr entry" by blast
  from I h e' d v q k show ?thesis by blast
qed

text \<open>
  C8. \<^verbatim>\<open>harmonic_mean_comp\<close> computes \<open>1 / \<Sum> (f\<^sub>i / v\<^sub>i)\<close> over its three
  components, that is \<open>harmonic_mix\<close> on lists of length three. Mixing a nonzero value
  \<open>v\<close> with itself under fractions that add up to 1 returns \<open>v\<close>; so does the
  one-component mix (fractions 1, 0, 0) and the two-component mix (fractions 0.5, 0.5, 0),
  whatever nonzero values fill the unused places.
\<close>

theorem harmonic_mix_identity:
  "(b \<noteq> 0 \<and> l \<noteq> 0 \<and> h \<noteq> 0 \<and> fb / b + fl / l + fh / h \<noteq> 0 \<longrightarrow>
      harmonic_mean_comp b l h fb fl fh = Inr (harmonic_mix [b, l, h] [fb, fl, fh])) \<and>
   (v \<noteq> 0 \<and> f1 + f2 + f3 = 1 \<longrightarrow> harmonic_mean_comp v v v f1 f2 f3 = Inr v) \<and>
   (v \<noteq> 0 \<and> x \<noteq> 0 \<and> y \<noteq> 0 \<longrightarrow>
      harmonic_mean_comp v x y 1 0 0 = Inr v \<and> harmonic_mean_comp v v y 0.5 0.5 0 = Inr v) \<and>
   (v \<noteq> 0 \<longrightarrow> harmonic_mix [v] [1] = v \<and> harmonic_mix [v, v] [0.5, 0.5] = v)"
proof (intro conjI impI)
  assume "b \<noteq> 0 \<and> l \<noteq> 0 \<and> h \<noteq> 0 \<and> fb / b + fl / l + fh / h \<noteq> 0"
  then show "harmonic_mean_comp b l h fb fl fh = Inr (harmonic_mix [b, l, h] [fb, fl, fh])"
    by (simp add: harmonic_mean_comp_def harmonic_mix_def Let_def)
next
  assume a: "v \<noteq> 0 \<and> f1 + f2 + f3 = 1"
  then have "f1 / v + f2 / v + f3 / v = 1 / v" by (simp add: add_divide_distrib[symmetric])
  then show "harmonic_mean_comp v v v f1 f2 f3 = Inr v"
    using a by (simp add: harmonic_mean_comp_def Let_def)
next
  assume "v \<noteq> 0 \<and> x \<noteq> 0 \<and> y \<noteq> 0"
  then show "harmonic_mean_comp v x y 1 0 0 = Inr v"
    by (simp add: harmonic_mean_comp_def Let_def)
next
  assume a: "v \<noteq> 0 \<and> x \<noteq> 0 \<and> y \<noteq> 0"
  have "5 / (v * 10) + 5 / (v * 10) = 1 / v" using a by (simp add: field_simps)
  then show "harmonic_mean_comp v v y 0.5 0.5 0 = Inr v"
    using a by (simp add: harmonic_mean_comp_def Let_def)
next
  assume "v \<noteq> 0"
  then show "harmonic_mix [v] [1] = v" by (simp add: harmonic_mix_def)
next
  assume "v \<noteq> 0"
  then show "harmonic_mix [v, v] [0.5, 0.5] = v" by (simp add: harmonic_mix_def field_simps)
qed

theorem harmonic_mix_identity_witness:
  "(4::real) \<noteq> 0 \<and> (0.2::real) + 0.3 + 0.5 = 1 \<and> (7::real) \<noteq> 0 \<and> (9::real) \<noteq> 0 \<and>
   harmonic_mean_comp 4 4 4 0.2 0.3 0.5 = Inr 4 \<and>
   harmonic_mean_comp 4 7 9 1 0 0 = Inr 4 \<and>
   harmonic_mean_comp 4 4 9 0.5 0.5 0 = Inr 4 \<and>
   harmonic_mix [4] [1] = 4 \<and> harmonic_mix [4, 4] [0.5, 0.5] = 4"
  using harmonic_mix_identity[of 4 4 4 "0.2" "0.3" "0.5" 4 "0.2" "0.3" "0.5" 7 9]
  by (simp add: harmonic_mix_def)

text \<open>
  C9. For two numpy anchors of the same length, \<^verbatim>\<open>linear_interp_1d\<close> with the anchor
  compositions 0 and 1 returns the first anchor at 0 and the second anchor at 1 (as
  flattened arrays), and for any two distinct anchor compositions and any new
  composition, inside or outside them, it returns the value of the straight line through
  the two anchors.
\<close>

theorem composition_endpoints:
  assumes "flatten a = Inr xs" "flatten b = Inr ys" "length xs = length ys"
  shows "linear_interp_1d a b 0 1 (CScalar 0) = Inr (Arr1 xs) \<and>
         linear_interp_1d a b 0 1 (CScalar 1) = Inr (Arr1 ys) \<and>
         (\<forall>c1 c2 c. c1 \<noteq> c2 \<longrightarrow>
            linear_interp_1d a b c1 c2 (CScalar c) =
              Inr (Arr1 (map2 (\<lambda>x y. x + (y - x) * (c - c1) / (c2 - c1)) xs ys)))"
proof (intro conjI allI impI)
  have z: "(0::real) \<noteq> 1" by simp
  show "linear_interp_1d a b 0 1 (CScalar 0) = Inr (Arr1 xs)"
    using assms by (simp add: linear_interp_1d_def interp1d_at_line[OF z] map2_fst)
  show "linear_interp_1d a b 0 1 (CScalar 1) = Inr (Arr1 ys)"
    using assms by (simp add: linear_interp_1d_def interp1d_at_line[OF z] map2_snd)
  fix c1 c2 c :: real assume "c1 \<noteq> c2"
  then show "linear_interp_1d a b c1 c2 (CScalar c) =
              Inr (Arr1 (map2 (\<lambda>x y. x + (y - x) * (c - c1) / (c2 - c1)) xs ys))"
    using assms by (simp add: linear_interp_1d_def interp1d_at_line)
qed

theorem composition_endpoints_witness:
  "flatten (NdArray [4, 8]) = Inr [4, 8] \<and> flatten (NdArray [6, 2]) = Inr [6, 2] \<and>
   length [4, 8 :: real] = length [6, 2 :: real] \<and>
   linear_interp_1d (NdArray [4, 8]) (NdArray [6, 2]) 0 1 (CScalar 0) = Inr (Arr1 [4, 8]) \<and>
   linear_interp_1d (NdArray [4, 8]) (NdArray [6, 2]) 0 1 (CScalar 1) = Inr (Arr1 [6, 2]) \<and>
   linear_interp_1d (NdArray [4, 8]) (NdArray [6, 2]) 0 1 (CScalar 2) = Inr (Arr1 [8, -4])"
proof -
  have h: "flatten (NdArray [4, 8]) = Inr [4, 8]" "flatten (NdArray [6, 2]) = Inr [6, 2]"
    "length [4, 8 :: real] = length [6, 2 :: real]" by (simp_all add: flatten_def)
  from composition_endpoints[OF h] h show ?thesis by simp
qed

text \<open>
  C10 (as stated, it fails). Two Python floats as anchors: \<^verbatim>\<open>vals1.flatten()\<close> raises
  AttributeError.
\<close>

theorem scalar_anchors_counterexample:
  "linear_interp_1d (PyScalar 1) (PyScalar 2) 0 1 (CScalar 0.5) = Inl AttributeError"
  by (simp add: linear_interp_1d_def flatten_def)

text \<open>
  C10 (amended). With two numpy scalars as anchors and two distinct anchor compositions,
  \<^verbatim>\<open>linear_interp_1d\<close> returns the array of length one that holds the linear
  interpolant. An anchor that is a plain Python number raises AttributeError.
\<close>

theorem scalar_anchors:
  "(c_a \<noteq> c_b \<longrightarrow>
      linear_interp_1d (NpScalar a) (NpScalar b) c_a c_b (CScalar c) =
        Inr (Arr1 [a + (b - a) * (c - c_a) / (c_b - c_a)])) \<and>
   linear_interp_1d (PyScalar a) v c_a c_b q = Inl AttributeError"
proof (intro conjI impI)
  assume "c_a \<noteq> c_b"
  then show "linear_interp_1d (NpScalar a) (NpScalar b) c_a c_b (CScalar c) =
        Inr (Arr1 [a + (b - a) * (c - c_a) / (c_b - c_a)])"
    by (simp add: linear_interp_1d_def flatten_def interp1d_at_line)
qed (simp_all add: linear_interp_1d_def flatten_def)

theorem scalar_anchors_witness:
  "(0::real) \<noteq> 1 \<and> linear_interp_1d (NpScalar 4) (NpScalar 6) 0 1 (CScalar 0.5) = Inr (Arr1 [5])"
  using scalar_anchors[of 0 1 4 6 "0.5"] by simp

end
